theory Spec2Isabelle
  imports Complex_Main "HOL-Library.Char_ord" "HOL-Library.List_Lexorder"
    "HOL-Library.Multiset" "HOL-Library.Sublist"
begin

section \<open>Data model (placement\_logic.h)\<close>

text \<open>
  The structs of the header become records. Several structs share field names
  (\<open>itemId\<close>, \<open>width\<close>, ...); the fields of all but \<open>Coordinates\<close>,
  \<open>Position\<close> and \<open>PlacementOutput\<close> carry a one-letter prefix naming their struct.
  A \<open>double\<close> is modelled as a real number: every geometric test of the engine is
  made on the coordinates it has already computed, so the properties below are about those
  comparisons and not about rounding. An \<open>int\<close> priority is only ever compared, so
  it is an \<open>int\<close>. A \<open>std::string\<close> is a \<open>string\<close> with the
  lexicographic byte order, which is the order of \<open>std::map\<close> keys.
\<close>

definition COORD_TOLERANCE :: real where
  "COORD_TOLERANCE = 1 / 1000000"

record Coordinates =
  width :: real
  depth :: real
  height :: real

record Position =
  startCoordinates :: Coordinates
  endCoordinates :: Coordinates

record ItemData =
  i_itemId :: string
  i_name :: string
  i_width :: real
  i_depth :: real
  i_height :: real
  i_mass :: real
  i_priority :: int
  i_expiryDate :: "string option"
  i_usageLimit :: "int option"
  i_preferredZone :: "string option"

record ContainerData =
  c_containerId :: string
  c_zone :: string
  c_width :: real
  c_depth :: real
  c_height :: real

record PlacementInfo =
  p_itemId :: string
  p_containerId :: string
  p_position :: Position
  p_priority :: int

record PlacementResult =
  r_itemId :: string
  r_containerId :: string
  r_position :: Position

record RearrangementStep =
  s_step :: int
  s_action :: string
  s_itemId :: string
  s_fromContainer :: "string option"
  s_fromPosition :: "Position option"
  s_toContainer :: string
  s_toPosition :: Position

record PlacementOutput =
  success :: bool
  error :: "string option"
  placements :: "PlacementResult list"
  rearrangements :: "RearrangementStep list"
  failedItemIds :: "string list"

type_synonym Orientation = "real \<times> real \<times> real"

section \<open>Geometry primitives\<close>

definition boxes_overlap :: "Position \<Rightarrow> Position \<Rightarrow> bool" where
  "boxes_overlap pos1 pos2 =
     (let no_overlap_w =
            (width (endCoordinates pos1) \<le> width (startCoordinates pos2) + COORD_TOLERANCE \<or>
             width (endCoordinates pos2) \<le> width (startCoordinates pos1) + COORD_TOLERANCE);
          no_overlap_d =
            (depth (endCoordinates pos1) \<le> depth (startCoordinates pos2) + COORD_TOLERANCE \<or>
             depth (endCoordinates pos2) \<le> depth (startCoordinates pos1) + COORD_TOLERANCE);
          no_overlap_h =
            (height (endCoordinates pos1) \<le> height (startCoordinates pos2) + COORD_TOLERANCE \<or>
             height (endCoordinates pos2) \<le> height (startCoordinates pos1) + COORD_TOLERANCE)
      in \<not> (no_overlap_w \<or> no_overlap_d \<or> no_overlap_h))"

text \<open>
  The source file defines \<open>is_stable\<close> twice. The second definition (lines 146-178),
  the one the specification describes, keeps the name. Its loop over the placed items
  leaves at the first supporter (\<open>break\<close>).
\<close>

fun is_stable_loop :: "Position \<Rightarrow> PlacementInfo list \<Rightarrow> bool" where
  "is_stable_loop candidate_pos [] = False"
| "is_stable_loop candidate_pos (existing_placement # rest) =
     (if \<bar>height (endCoordinates (p_position existing_placement))
           - height (startCoordinates candidate_pos)\<bar> < COORD_TOLERANCE
      then
        (let overlap_w =
               (\<not> (width (endCoordinates candidate_pos)
                       \<le> width (startCoordinates (p_position existing_placement)) + COORD_TOLERANCE \<or>
                    width (endCoordinates (p_position existing_placement))
                       \<le> width (startCoordinates candidate_pos) + COORD_TOLERANCE));
             overlap_d =
               (\<not> (depth (endCoordinates candidate_pos)
                       \<le> depth (startCoordinates (p_position existing_placement)) + COORD_TOLERANCE \<or>
                    depth (endCoordinates (p_position existing_placement))
                       \<le> depth (startCoordinates candidate_pos) + COORD_TOLERANCE))
         in if overlap_w \<and> overlap_d then True else is_stable_loop candidate_pos rest)
      else is_stable_loop candidate_pos rest)"

definition is_stable :: "Position \<Rightarrow> ContainerData \<Rightarrow> PlacementInfo list \<Rightarrow> bool" where
  "is_stable candidate_pos container current_placements_in_container =
     (if \<bar>height (startCoordinates candidate_pos)\<bar> < COORD_TOLERANCE then True
      else is_stable_loop candidate_pos current_placements_in_container)"

text \<open>
  The first definition of \<open>is_stable\<close> in the file (lines 51-89) asks for the centre
  of the candidate's base to lie within the supporter's footprint.
\<close>

fun is_stable_centre_loop :: "Position \<Rightarrow> real \<Rightarrow> real \<Rightarrow> PlacementInfo list \<Rightarrow> bool" where
  "is_stable_centre_loop candidate_pos candidate_base_center_w candidate_base_center_d [] = False"
| "is_stable_centre_loop candidate_pos candidate_base_center_w candidate_base_center_d
       (existing_placement # rest) =
     (if \<bar>height (endCoordinates (p_position existing_placement))
           - height (startCoordinates candidate_pos)\<bar> < COORD_TOLERANCE
      then
        (let center_within_w =
               (candidate_base_center_w
                  \<ge> width (startCoordinates (p_position existing_placement)) - COORD_TOLERANCE \<and>
                candidate_base_center_w
                  \<le> width (endCoordinates (p_position existing_placement)) + COORD_TOLERANCE);
             center_within_d =
               (candidate_base_center_d
                  \<ge> depth (startCoordinates (p_position existing_placement)) - COORD_TOLERANCE \<and>
                candidate_base_center_d
                  \<le> depth (endCoordinates (p_position existing_placement)) + COORD_TOLERANCE)
         in if center_within_w \<and> center_within_d then True
            else is_stable_centre_loop candidate_pos candidate_base_center_w
                   candidate_base_center_d rest)
      else is_stable_centre_loop candidate_pos candidate_base_center_w
             candidate_base_center_d rest)"

definition is_stable_first_definition ::
  "Position \<Rightarrow> ContainerData \<Rightarrow> PlacementInfo list \<Rightarrow> bool" where
  "is_stable_first_definition candidate_pos container current_placements_in_container =
     (if \<bar>height (startCoordinates candidate_pos)\<bar> < COORD_TOLERANCE then True
      else
        (let candidate_base_center_w =
               width (startCoordinates candidate_pos)
                 + (width (endCoordinates candidate_pos) - width (startCoordinates candidate_pos)) / 2;
             candidate_base_center_d =
               depth (startCoordinates candidate_pos)
                 + (depth (endCoordinates candidate_pos) - depth (startCoordinates candidate_pos)) / 2
         in is_stable_centre_loop candidate_pos candidate_base_center_w candidate_base_center_d
              current_placements_in_container))"

text \<open>
  The strict overlap of two boxes under the tolerance on one axis, and on the width and
  depth axes together: the predicate of \<open>boxes_overlap\<close> without its height axis.
\<close>

definition wd_projections_overlap :: "Position \<Rightarrow> Position \<Rightarrow> bool" where
  "wd_projections_overlap a b =
     (\<not> (width (endCoordinates a) \<le> width (startCoordinates b) + COORD_TOLERANCE \<or>
          width (endCoordinates b) \<le> width (startCoordinates a) + COORD_TOLERANCE) \<and>
      \<not> (depth (endCoordinates a) \<le> depth (startCoordinates b) + COORD_TOLERANCE \<or>
          depth (endCoordinates b) \<le> depth (startCoordinates a) + COORD_TOLERANCE))"

definition mk_coords :: "real \<Rightarrow> real \<Rightarrow> real \<Rightarrow> Coordinates" where
  "mk_coords w d h = \<lparr>width = w, depth = d, height = h\<rparr>"

definition mk_pos :: "Coordinates \<Rightarrow> Coordinates \<Rightarrow> Position" where
  "mk_pos s e = \<lparr>startCoordinates = s, endCoordinates = e\<rparr>"

section \<open>Loops and containers of the standard library\<close>

text \<open>
  A range-based \<open>for\<close> whose body either goes on (\<open>continue\<close>, here
  \<open>None\<close>) or leaves the function with a result (\<open>return\<close>, here \<open>Some\<close>).
\<close>

fun for_each_first :: "'a list \<Rightarrow> ('a \<Rightarrow> 'b option) \<Rightarrow> 'b option" where
  "for_each_first [] body = None"
| "for_each_first (x # xs) body =
     (case body x of Some r \<Rightarrow> Some r | None \<Rightarrow> for_each_first xs body)"

text \<open>The counting loop \<open>for (int i = i0; i < n; ++i)\<close> with the same two exits.\<close>

function for_first :: "int \<Rightarrow> int \<Rightarrow> (int \<Rightarrow> 'b option) \<Rightarrow> 'b option" where
  "for_first i n body =
     (if i < n then (case body i of Some r \<Rightarrow> Some r | None \<Rightarrow> for_first (i + 1) n body)
      else None)"
  by pat_completeness auto
termination
  by (relation "measure (\<lambda>(i, n, body). nat (n - i))") auto

declare for_first.simps [simp del]

text \<open>
  \<open>static_cast<int>\<close> of a \<open>double\<close> truncates towards zero. The quotient it is
  applied to is at most 25 for a container of non-negative extent, so the range of
  \<open>int\<close> is not modelled.
\<close>

definition static_cast_int :: "real \<Rightarrow> int" where
  "static_cast_int x = (if 0 \<le> x then \<lfloor>x\<rfloor> else \<lceil>x\<rceil>)"

text \<open>
  A \<open>std::map\<close> is the list of its entries in ascending key order, which is the order
  of its iteration. \<open>map_assign\<close> is \<open>m[k] = v\<close>; \<open>map_index\<close> reads \<open>m[k]\<close>,
  which is the value-initialised \<open>dflt\<close> for an absent key. (The read also inserts that
  default entry; since every read of the maps concerned goes through \<open>m[k]\<close>, the
  inserted entry is indistinguishable from an absent one and is left out.)
\<close>

fun map_assign :: "'k::linorder \<Rightarrow> 'v \<Rightarrow> ('k \<times> 'v) list \<Rightarrow> ('k \<times> 'v) list" where
  "map_assign k v [] = [(k, v)]"
| "map_assign k v ((k', v') # m) =
     (if k < k' then (k, v) # (k', v') # m
      else if k = k' then (k, v) # m
      else (k', v') # map_assign k v m)"

definition map_index :: "'v \<Rightarrow> ('k \<times> 'v) list \<Rightarrow> 'k \<Rightarrow> 'v" where
  "map_index dflt m k = (case map_of m k of None \<Rightarrow> dflt | Some v \<Rightarrow> v)"


text \<open>A \<open>std::set<double>\<close> is the ascending list of its elements.\<close>

definition std_set_insert :: "real \<Rightarrow> real list \<Rightarrow> real list" where
  "std_set_insert x xs = (if x \<in> set xs then xs else insort x xs)"

section \<open>The spot finder\<close>

fun overlaps_any :: "Position \<Rightarrow> PlacementInfo list \<Rightarrow> bool" where
  "overlaps_any candidate_pos [] = False"
| "overlaps_any candidate_pos (existing_placement # rest) =
     (if boxes_overlap candidate_pos (p_position existing_placement) then True
      else overlaps_any candidate_pos rest)"

fun found_close :: "real \<Rightarrow> real list \<Rightarrow> bool" where
  "found_close e [] = False"
| "found_close e (h # hs) =
     (if \<bar>e - h\<bar> < COORD_TOLERANCE * 10 then True else found_close e hs)"

fun base_height_set :: "PlacementInfo list \<Rightarrow> real list \<Rightarrow> real list" where
  "base_height_set [] hs = hs"
| "base_height_set (placed_item # rest) hs =
     base_height_set rest
       (if found_close (height (endCoordinates (p_position placed_item))) hs then hs
        else std_set_insert (height (endCoordinates (p_position placed_item))) hs)"

definition orientations :: "ItemData \<Rightarrow> Orientation list" where
  "orientations item_req =
     [(i_width item_req, i_depth item_req, i_height item_req),
      (i_width item_req, i_height item_req, i_depth item_req),
      (i_depth item_req, i_width item_req, i_height item_req),
      (i_depth item_req, i_height item_req, i_width item_req),
      (i_height item_req, i_width item_req, i_depth item_req),
      (i_height item_req, i_depth item_req, i_width item_req)]"

text \<open>
  \<open>find_spot_in_container\<close> (lines 191-318) is written loop by loop, innermost first.
  The increments and step counts, which the source computes once at the head of the
  function (lines 206-209), stand in the loop that uses them. \<open>validate_candidate\<close>
  is the body of the width loop from the candidate on (lines 275-308).
\<close>

definition validate_candidate ::
  "ContainerData \<Rightarrow> PlacementInfo list \<Rightarrow> Orientation \<Rightarrow> real \<Rightarrow> real \<Rightarrow> real
     \<Rightarrow> (Position \<times> Orientation) option" where
  "validate_candidate container current_placements_in_container orientation start_w start_d start_h =
     (case orientation of (item_w, item_d, item_h) \<Rightarrow>
        let candidate_pos =
              \<lparr>startCoordinates = \<lparr>width = start_w, depth = start_d, height = start_h\<rparr>,
               endCoordinates = \<lparr>width = start_w + item_w, depth = start_d + item_d,
                                 height = start_h + item_h\<rparr>\<rparr>
        in if width (endCoordinates candidate_pos) > c_width container + COORD_TOLERANCE \<or>
              depth (endCoordinates candidate_pos) > c_depth container + COORD_TOLERANCE \<or>
              height (endCoordinates candidate_pos) > c_height container + COORD_TOLERANCE
           then None
           else if overlaps_any candidate_pos current_placements_in_container then None
           else if \<not> is_stable candidate_pos container current_placements_in_container then None
           else Some (candidate_pos, orientation))"

definition width_loop ::
  "ContainerData \<Rightarrow> PlacementInfo list \<Rightarrow> Orientation \<Rightarrow> real \<Rightarrow> real
     \<Rightarrow> (Position \<times> Orientation) option" where
  "width_loop container current_placements_in_container orientation start_h start_d =
     (case orientation of (item_w, item_d, item_h) \<Rightarrow>
        let width_increment = max (c_width container / 25) (2 / 100);
            num_w_steps = static_cast_int (c_width container / width_increment) + 2
        in for_first 0 num_w_steps (\<lambda>w_idx.
             let start_w = max 0 (min (of_int w_idx * width_increment) (c_width container - item_w))
             in if start_w + item_w > c_width container + COORD_TOLERANCE then None
                else validate_candidate container current_placements_in_container orientation
                       start_w start_d start_h))"

definition depth_loop ::
  "ContainerData \<Rightarrow> PlacementInfo list \<Rightarrow> bool \<Rightarrow> Orientation \<Rightarrow> real
     \<Rightarrow> (Position \<times> Orientation) option" where
  "depth_loop container current_placements_in_container is_high_priority orientation start_h =
     (case orientation of (item_w, item_d, item_h) \<Rightarrow>
        let depth_increment = max (c_depth container / 25) (2 / 100);
            num_d_steps = static_cast_int (c_depth container / depth_increment) + 2
        in for_first 0 num_d_steps (\<lambda>d_idx.
             let start_d = (if is_high_priority then of_int d_idx * depth_increment
                            else c_depth container - of_int (d_idx + 1) * depth_increment);
                 start_d = max 0 (min start_d (c_depth container - item_d))
             in if start_d + item_d > c_depth container + COORD_TOLERANCE then None
                else width_loop container current_placements_in_container orientation
                       start_h start_d))"

definition find_spot_in_container ::
  "ItemData \<Rightarrow> ContainerData \<Rightarrow> PlacementInfo list \<Rightarrow> bool \<Rightarrow> (Position \<times> Orientation) option" where
  "find_spot_in_container item_req container current_placements_in_container is_high_priority =
     (let possible_base_heights = base_height_set current_placements_in_container [0]
      in for_each_first (orientations item_req) (\<lambda>orientation.
           case orientation of (item_w, item_d, item_h) \<Rightarrow>
             if item_w > c_width container + COORD_TOLERANCE \<or>
                item_d > c_depth container + COORD_TOLERANCE \<or>
                item_h > c_height container + COORD_TOLERANCE
             then None
             else for_each_first possible_base_heights (\<lambda>start_h.
                    if start_h + item_h > c_height container + COORD_TOLERANCE then None
                    else depth_loop container current_placements_in_container is_high_priority
                           orientation start_h)))"

section \<open>The phase orchestrator\<close>

text \<open>The local variables of \<open>suggest_placements_cpp\<close> that its loops update.\<close>

record SimState =
  simulation_placements :: "(string \<times> PlacementInfo list) list"
  processed_item_ids :: "string set"
  final_placements_map :: "(string \<times> PlacementResult) list"
  items_requiring_placement_pass_2 :: "ItemData list"
  st_output :: PlacementOutput

definition default_container :: ContainerData where
  "default_container =
     \<lparr>c_containerId = [], c_zone = [], c_width = 0, c_depth = 0, c_height = 0\<rparr>"

text \<open>The two loops that seed \<open>final_placements_map\<close> from the live placements (lines 360-370).\<close>

fun seed_container ::
  "string \<Rightarrow> PlacementInfo list \<Rightarrow> (string \<times> PlacementResult) list
     \<Rightarrow> (string \<times> PlacementResult) list" where
  "seed_container container_id [] fm = fm"
| "seed_container container_id (placement_info # rest) fm =
     seed_container container_id rest
       (map_assign (p_itemId placement_info)
          \<lparr>r_itemId = p_itemId placement_info, r_containerId = container_id,
           r_position = p_position placement_info\<rparr> fm)"

fun seed_final ::
  "(string \<times> PlacementInfo list) list \<Rightarrow> (string \<times> PlacementResult) list
     \<Rightarrow> (string \<times> PlacementResult) list" where
  "seed_final [] fm = fm"
| "seed_final (pair # rest) fm = seed_final rest (seed_container (fst pair) (snd pair) fm)"

fun load_containers_map ::
  "ContainerData list \<Rightarrow> (string \<times> ContainerData) list \<Rightarrow> (string \<times> ContainerData) list" where
  "load_containers_map [] cm = cm"
| "load_containers_map (c # rest) cm = load_containers_map rest (map_assign (c_containerId c) c cm)"

text \<open>The updates made when a spot is found (lines 401-412 and 469-480).\<close>

definition commit_placement :: "SimState \<Rightarrow> ItemData \<Rightarrow> string \<Rightarrow> Position \<Rightarrow> SimState" where
  "commit_placement st item_req container_id found_pos =
     st\<lparr>simulation_placements :=
          map_assign container_id
            (map_index [] (simulation_placements st) container_id @
               [\<lparr>p_itemId = i_itemId item_req, p_containerId = container_id,
                 p_position = found_pos, p_priority = i_priority item_req\<rparr>])
            (simulation_placements st),
        final_placements_map :=
          map_assign (i_itemId item_req)
            \<lparr>r_itemId = i_itemId item_req, r_containerId = container_id, r_position = found_pos\<rparr>
            (final_placements_map st),
        processed_item_ids := insert (i_itemId item_req) (processed_item_ids st)\<rparr>"

text \<open>
  The container loop of Phase 1 (lines 389-418): \<open>Some\<close> of the updated state when the
  item was placed (\<open>placed_in_phase1\<close>), \<open>None\<close> otherwise.
\<close>

fun phase1_containers ::
  "(string \<times> ContainerData) list \<Rightarrow> ItemData \<Rightarrow> bool \<Rightarrow> string \<Rightarrow> string list \<Rightarrow> SimState
     \<Rightarrow> SimState option" where
  "phase1_containers containers_map item_req is_high_prio pref_zone [] st = None"
| "phase1_containers containers_map item_req is_high_prio pref_zone (container_id # rest) st =
     (let container = map_index default_container containers_map container_id
      in if c_zone container = pref_zone
         then
           (let current_in_container = map_index [] (simulation_placements st) container_id
            in case find_spot_in_container item_req container current_in_container is_high_prio of
                 Some (found_pos, found_ori) \<Rightarrow>
                   Some (commit_placement st item_req container_id found_pos)
               | None \<Rightarrow>
                   phase1_containers containers_map item_req is_high_prio pref_zone rest st)
         else phase1_containers containers_map item_req is_high_prio pref_zone rest st)"

definition phase1_item ::
  "(string \<times> ContainerData) list \<Rightarrow> string list \<Rightarrow> SimState \<Rightarrow> ItemData \<Rightarrow> SimState" where
  "phase1_item containers_map container_ids st item_req =
     (if i_itemId item_req \<in> processed_item_ids st then st
      else
        let is_high_prio = (i_priority item_req \<ge> 75);
            placed = (case i_preferredZone item_req of
                        Some pref_zone \<Rightarrow>
                          phase1_containers containers_map item_req is_high_prio pref_zone
                            container_ids st
                      | None \<Rightarrow> None)
        in case placed of
             Some st' \<Rightarrow> st'
           | None \<Rightarrow>
               st\<lparr>items_requiring_placement_pass_2 :=
                    items_requiring_placement_pass_2 st @ [item_req]\<rparr>)"

fun phase1 ::
  "(string \<times> ContainerData) list \<Rightarrow> string list \<Rightarrow> ItemData list \<Rightarrow> SimState \<Rightarrow> SimState" where
  "phase1 containers_map container_ids [] st = st"
| "phase1 containers_map container_ids (item_req # rest) st =
     phase1 containers_map container_ids rest (phase1_item containers_map container_ids st item_req)"

text \<open>
  Phase 2 (lines 428-446) is a placeholder: the backlog of Phase 1 becomes the work list
  of Phase 3 and the intermediate list is cleared.
\<close>

definition phase2 :: "SimState \<Rightarrow> ItemData list \<times> SimState" where
  "phase2 st =
     (let items_requiring_placement_pass_3 = items_requiring_placement_pass_2 st
      in (items_requiring_placement_pass_3, st\<lparr>items_requiring_placement_pass_2 := []\<rparr>))"

fun phase3_containers ::
  "(string \<times> ContainerData) list \<Rightarrow> ItemData \<Rightarrow> bool \<Rightarrow> string list \<Rightarrow> SimState
     \<Rightarrow> SimState option" where
  "phase3_containers containers_map item_req is_high_prio [] st = None"
| "phase3_containers containers_map item_req is_high_prio (container_id # rest) st =
     (let container = map_index default_container containers_map container_id;
          current_in_container = map_index [] (simulation_placements st) container_id
      in case find_spot_in_container item_req container current_in_container is_high_prio of
           Some (found_pos, found_ori) \<Rightarrow>
             Some (commit_placement st item_req container_id found_pos)
         | None \<Rightarrow> phase3_containers containers_map item_req is_high_prio rest st)"

definition fail_item :: "SimState \<Rightarrow> ItemData \<Rightarrow> SimState" where
  "fail_item st item_req =
     st\<lparr>processed_item_ids := insert (i_itemId item_req) (processed_item_ids st),
        st_output :=
          (st_output st)\<lparr>failedItemIds := failedItemIds (st_output st) @ [i_itemId item_req],
                      success := False,
                      error := (case error (st_output st) of
                                  None \<Rightarrow> Some ''Placement failed for one or more items.''
                                | Some e \<Rightarrow> Some e)\<rparr>\<rparr>"

definition phase3_item ::
  "(string \<times> ContainerData) list \<Rightarrow> string list \<Rightarrow> SimState \<Rightarrow> ItemData \<Rightarrow> SimState" where
  "phase3_item containers_map container_ids st item_req =
     (if i_itemId item_req \<in> processed_item_ids st then st
      else
        let is_high_prio = (i_priority item_req \<ge> 75)
        in case phase3_containers containers_map item_req is_high_prio container_ids st of
             Some st' \<Rightarrow> st'
           | None \<Rightarrow> fail_item st item_req)"

fun phase3 ::
  "(string \<times> ContainerData) list \<Rightarrow> string list \<Rightarrow> ItemData list \<Rightarrow> SimState \<Rightarrow> SimState" where
  "phase3 containers_map container_ids [] st = st"
| "phase3 containers_map container_ids (item_req # rest) st =
     phase3 containers_map container_ids rest (phase3_item containers_map container_ids st item_req)"

text \<open>
  Phase 4. The placements are the entries of \<open>final_placements_map\<close>, in key order, whose
  key is not a failed id (lines 503-516).
\<close>

fun is_failed :: "string \<Rightarrow> string list \<Rightarrow> bool" where
  "is_failed k [] = False"
| "is_failed k (failed_id # rest) = (if k = failed_id then True else is_failed k rest)"

fun collect_placements ::
  "(string \<times> PlacementResult) list \<Rightarrow> string list \<Rightarrow> PlacementResult list" where
  "collect_placements [] failed = []"
| "collect_placements (pair # rest) failed =
     (if \<not> is_failed (fst pair) failed then snd pair # collect_placements rest failed
      else collect_placements rest failed)"

text \<open>
  The loop that writes the error message (lines 522-524). \<open>size() - 1\<close> is only
  evaluated inside the loop, where the list is not empty.
\<close>

function error_msg_loop :: "string list \<Rightarrow> nat \<Rightarrow> string \<Rightarrow> string" where
  "error_msg_loop failed i error_msg =
     (if i < length failed
      then error_msg_loop failed (i + 1)
             (error_msg @ (failed ! i @ (if i = length failed - 1 then [] else '', '')))
      else error_msg)"
  by pat_completeness auto
termination
  by (relation "measure (\<lambda>(failed, i, error_msg). length failed - i)") auto

declare error_msg_loop.simps [simp del]

definition phase4 :: "SimState \<Rightarrow> PlacementOutput" where
  "phase4 st =
     (let out = (st_output st)\<lparr>placements :=
                   collect_placements (final_placements_map st) (failedItemIds (st_output st))\<rparr>
      in if failedItemIds out \<noteq> []
         then out\<lparr>error :=
                Some (error_msg_loop (failedItemIds out) 0 ''Placement incomplete. Failed items: '')\<rparr>
         else out)"

text \<open>The comparator handed to \<open>std::sort\<close> (lines 338-340).\<close>

definition higher_priority_first :: "ItemData \<Rightarrow> ItemData \<Rightarrow> bool" where
  "higher_priority_first a b = (i_priority a > i_priority b)"

text \<open>
  \<open>std::sort\<close> is library code. It is the parameter \<open>std_sort\<close>, which takes the
  comparator and the vector and returns the vector after the call. What the C++ standard
  guarantees of the call of lines 337-340 is \<open>std_sort_contract\<close>: the result is a
  permutation of the input in which no later element compares before an earlier one under
  \<open>higher_priority_first\<close>. The standard leaves the order of elements that compare equal
  open.
\<close>

definition std_sort_contract ::
  "((ItemData \<Rightarrow> ItemData \<Rightarrow> bool) \<Rightarrow> ItemData list \<Rightarrow> ItemData list) \<Rightarrow> bool" where
  "std_sort_contract std_sort =
     (\<forall>xs. mset (std_sort higher_priority_first xs) = mset xs \<and>
           sorted_wrt (\<lambda>a b. \<not> higher_priority_first b a) (std_sort higher_priority_first xs))"

definition initial_output :: PlacementOutput where
  "initial_output =
     \<lparr>success = True, error = None, placements = [], rearrangements = [], failedItemIds = []\<rparr>"

definition initial_state :: "(string \<times> PlacementInfo list) list \<Rightarrow> SimState" where
  "initial_state current_db_placements =
     \<lparr>simulation_placements = current_db_placements,
      processed_item_ids = {},
      final_placements_map = seed_final current_db_placements [],
      items_requiring_placement_pass_2 = [],
      st_output = initial_output\<rparr>"

definition suggest_placements_cpp ::
  "((ItemData \<Rightarrow> ItemData \<Rightarrow> bool) \<Rightarrow> ItemData list \<Rightarrow> ItemData list) \<Rightarrow> ItemData list
     \<Rightarrow> ContainerData list \<Rightarrow> (string \<times> PlacementInfo list) list \<Rightarrow> PlacementOutput" where
  "suggest_placements_cpp std_sort items_to_place_input containers_input current_db_placements =
     (let sorted_incoming_items = std_sort higher_priority_first items_to_place_input;
          containers_map = load_containers_map containers_input [];
          container_ids = map c_containerId containers_input;
          st0 = initial_state current_db_placements;
          st1 = phase1 containers_map container_ids sorted_incoming_items st0;
          (items_requiring_placement_pass_3, st2) = phase2 st1;
          st3 = phase3 containers_map container_ids items_requiring_placement_pass_3 st2
      in phase4 st3)"

section \<open>The sort of the GNU C++ library\<close>

text \<open>
  \<open>std::sort\<close> is not code of the repository: the program takes it from the C++
  standard library it is built with. This section is the sort of the GNU C++ library
  (libstdc++, \<open>bits/stl_algo.h\<close> and \<open>bits/stl_heap.h\<close>), function by function under
  the library's names without their leading underscores: introsort, which partitions
  around a median of three while a range has more than 16 elements (\<open>_S_threshold\<close>),
  falls back to heap sort at depth \<open>2 * lg n\<close>, and finishes with insertion sort.
  The vector is a list, an iterator an index into it, \<open>cmp\<close> the comparator. The
  library's unguarded loops rely on an element that stops them; the model also stops
  them at the ends of the vector, where the library would read outside it.
\<close>

definition iter_swap :: "nat \<Rightarrow> nat \<Rightarrow> 'a list \<Rightarrow> 'a list" where
  "iter_swap a b v = v[a := v ! b, b := v ! a]"

definition move_median_to_first ::
  "('a \<Rightarrow> 'a \<Rightarrow> bool) \<Rightarrow> nat \<Rightarrow> nat \<Rightarrow> nat \<Rightarrow> nat \<Rightarrow> 'a list \<Rightarrow> 'a list" where
  "move_median_to_first cmp result a b c v =
     (if cmp (v ! a) (v ! b)
      then (if cmp (v ! b) (v ! c) then iter_swap result b v
            else if cmp (v ! a) (v ! c) then iter_swap result c v
            else iter_swap result a v)
      else if cmp (v ! a) (v ! c) then iter_swap result a v
      else if cmp (v ! b) (v ! c) then iter_swap result c v
      else iter_swap result b v)"

text \<open>The two inner loops of \<open>__unguarded_partition\<close>.\<close>

function partition_advance :: "('a \<Rightarrow> 'a \<Rightarrow> bool) \<Rightarrow> 'a list \<Rightarrow> nat \<Rightarrow> nat \<Rightarrow> nat" where
  "partition_advance cmp v pivot first =
     (if first < length v \<and> cmp (v ! first) (v ! pivot)
      then partition_advance cmp v pivot (first + 1)
      else first)"
  by pat_completeness auto
termination
  by (relation "measure (\<lambda>(cmp, v, pivot, first). length v - first)") auto

declare partition_advance.simps [simp del]

function partition_retreat :: "('a \<Rightarrow> 'a \<Rightarrow> bool) \<Rightarrow> 'a list \<Rightarrow> nat \<Rightarrow> nat \<Rightarrow> nat" where
  "partition_retreat cmp v pivot last_it =
     (if 0 < last_it \<and> cmp (v ! pivot) (v ! last_it)
      then partition_retreat cmp v pivot (last_it - 1)
      else last_it)"
  by pat_completeness auto
termination
  by (relation "measure (\<lambda>(cmp, v, pivot, last_it). last_it)") auto

declare partition_retreat.simps [simp del]

function unguarded_partition ::
  "('a \<Rightarrow> 'a \<Rightarrow> bool) \<Rightarrow> nat \<Rightarrow> nat \<Rightarrow> nat \<Rightarrow> 'a list \<Rightarrow> nat \<times> 'a list" where
  "unguarded_partition cmp first last_it pivot v =
     (let first' = partition_advance cmp v pivot first;
          last_it' = partition_retreat cmp v pivot (last_it - 1)
      in if \<not> (first' < last_it') then (first', v)
         else unguarded_partition cmp (first' + 1) last_it' pivot (iter_swap first' last_it' v))"
  by pat_completeness auto
termination
proof (relation "measure (\<lambda>(cmp, first, last_it, pivot, v). last_it - first)", goal_cases)
  case 1
  show ?case by simp
next
  case (2 cmp first last_it pivot v first' last_it')
  have a: "first \<le> partition_advance cmp v pivot first" for first
    by (induction cmp v pivot first rule: partition_advance.induct)
       (subst partition_advance.simps, auto)
  have r: "partition_retreat cmp v pivot last_it \<le> last_it" for last_it
    by (induction cmp v pivot last_it rule: partition_retreat.induct)
       (subst partition_retreat.simps, auto)
  from 2 a[of first] r[of "last_it - 1"] show ?case by simp
qed

declare unguarded_partition.simps [simp del]

definition unguarded_partition_pivot ::
  "('a \<Rightarrow> 'a \<Rightarrow> bool) \<Rightarrow> nat \<Rightarrow> nat \<Rightarrow> 'a list \<Rightarrow> nat \<times> 'a list" where
  "unguarded_partition_pivot cmp first last_it v =
     (let mid = first + (last_it - first) div 2
      in unguarded_partition cmp (first + 1) last_it first
           (move_median_to_first cmp first (first + 1) mid (last_it - 1) v))"

text \<open>Heap sort (\<open>bits/stl_heap.h\<close>), on the range that starts at \<open>first\<close>.\<close>

function push_heap ::
  "('a \<Rightarrow> 'a \<Rightarrow> bool) \<Rightarrow> nat \<Rightarrow> nat \<Rightarrow> nat \<Rightarrow> 'a \<Rightarrow> 'a list \<Rightarrow> 'a list" where
  "push_heap cmp first holeIndex topIndex val v =
     (let parent = (holeIndex - 1) div 2
      in if holeIndex > topIndex \<and> cmp (v ! (first + parent)) val
         then push_heap cmp first parent topIndex val
                (v[first + holeIndex := v ! (first + parent)])
         else v[first + holeIndex := val])"
  by pat_completeness auto
termination
  by (relation "measure (\<lambda>(cmp, first, holeIndex, topIndex, val, v). holeIndex)") auto

declare push_heap.simps [simp del]

function adjust_heap_loop ::
  "('a \<Rightarrow> 'a \<Rightarrow> bool) \<Rightarrow> nat \<Rightarrow> nat \<Rightarrow> nat \<Rightarrow> nat \<Rightarrow> 'a list \<Rightarrow> nat \<times> nat \<times> 'a list" where
  "adjust_heap_loop cmp first len holeIndex secondChild v =
     (if secondChild < (len - 1) div 2
      then
        (let secondChild1 = 2 * (secondChild + 1);
             secondChild2 = (if cmp (v ! (first + secondChild1)) (v ! (first + (secondChild1 - 1)))
                             then secondChild1 - 1 else secondChild1)
         in adjust_heap_loop cmp first len secondChild2 secondChild2
              (v[first + holeIndex := v ! (first + secondChild2)]))
      else (holeIndex, secondChild, v))"
  by pat_completeness auto
termination
  by (relation "measure (\<lambda>(cmp, first, len, holeIndex, secondChild, v). len - secondChild)") auto

declare adjust_heap_loop.simps [simp del]

definition adjust_heap ::
  "('a \<Rightarrow> 'a \<Rightarrow> bool) \<Rightarrow> nat \<Rightarrow> nat \<Rightarrow> nat \<Rightarrow> 'a \<Rightarrow> 'a list \<Rightarrow> 'a list" where
  "adjust_heap cmp first holeIndex len val v =
     (let topIndex = holeIndex;
          (holeIndex1, secondChild1, v1) = adjust_heap_loop cmp first len holeIndex holeIndex v
      in if len mod 2 = 0 \<and> 2 \<le> len \<and> secondChild1 = (len - 2) div 2
         then
           (let secondChild2 = 2 * (secondChild1 + 1)
            in push_heap cmp first (secondChild2 - 1) topIndex val
                 (v1[first + holeIndex1 := v1 ! (first + (secondChild2 - 1))]))
         else push_heap cmp first holeIndex1 topIndex val v1)"

definition pop_heap :: "('a \<Rightarrow> 'a \<Rightarrow> bool) \<Rightarrow> nat \<Rightarrow> nat \<Rightarrow> nat \<Rightarrow> 'a list \<Rightarrow> 'a list" where
  "pop_heap cmp first last_it result v =
     adjust_heap cmp first 0 (last_it - first) (v ! result) (v[result := v ! first])"

function make_heap_loop ::
  "('a \<Rightarrow> 'a \<Rightarrow> bool) \<Rightarrow> nat \<Rightarrow> nat \<Rightarrow> nat \<Rightarrow> 'a list \<Rightarrow> 'a list" where
  "make_heap_loop cmp first len parent v =
     (let v1 = adjust_heap cmp first parent len (v ! (first + parent)) v
      in if parent = 0 then v1 else make_heap_loop cmp first len (parent - 1) v1)"
  by pat_completeness auto
termination
  by (relation "measure (\<lambda>(cmp, first, len, parent, v). parent)") auto

declare make_heap_loop.simps [simp del]

definition make_heap :: "('a \<Rightarrow> 'a \<Rightarrow> bool) \<Rightarrow> nat \<Rightarrow> nat \<Rightarrow> 'a list \<Rightarrow> 'a list" where
  "make_heap cmp first last_it v =
     (if last_it - first < 2 then v
      else make_heap_loop cmp first (last_it - first) ((last_it - first - 2) div 2) v)"

function heap_select_loop ::
  "('a \<Rightarrow> 'a \<Rightarrow> bool) \<Rightarrow> nat \<Rightarrow> nat \<Rightarrow> nat \<Rightarrow> nat \<Rightarrow> 'a list \<Rightarrow> 'a list" where
  "heap_select_loop cmp first middle last_it i v =
     (if i < last_it
      then heap_select_loop cmp first middle last_it (i + 1)
             (if cmp (v ! i) (v ! first) then pop_heap cmp first middle i v else v)
      else v)"
  by pat_completeness auto
termination
  by (relation "measure (\<lambda>(cmp, first, middle, last_it, i, v). last_it - i)") auto

declare heap_select_loop.simps [simp del]

definition heap_select ::
  "('a \<Rightarrow> 'a \<Rightarrow> bool) \<Rightarrow> nat \<Rightarrow> nat \<Rightarrow> nat \<Rightarrow> 'a list \<Rightarrow> 'a list" where
  "heap_select cmp first middle last_it v =
     heap_select_loop cmp first middle last_it middle (make_heap cmp first middle v)"

function sort_heap :: "('a \<Rightarrow> 'a \<Rightarrow> bool) \<Rightarrow> nat \<Rightarrow> nat \<Rightarrow> 'a list \<Rightarrow> 'a list" where
  "sort_heap cmp first last_it v =
     (if last_it - first > 1
      then sort_heap cmp first (last_it - 1) (pop_heap cmp first (last_it - 1) (last_it - 1) v)
      else v)"
  by pat_completeness auto
termination
  by (relation "measure (\<lambda>(cmp, first, last_it, v). last_it - first)") auto

declare sort_heap.simps [simp del]

definition partial_sort ::
  "('a \<Rightarrow> 'a \<Rightarrow> bool) \<Rightarrow> nat \<Rightarrow> nat \<Rightarrow> nat \<Rightarrow> 'a list \<Rightarrow> 'a list" where
  "partial_sort cmp first middle last_it v =
     sort_heap cmp first middle (heap_select cmp first middle last_it v)"

text \<open>The introsort loop; \<open>_S_threshold\<close> is 16.\<close>

function introsort_loop ::
  "('a \<Rightarrow> 'a \<Rightarrow> bool) \<Rightarrow> nat \<Rightarrow> nat \<Rightarrow> nat \<Rightarrow> 'a list \<Rightarrow> 'a list" where
  "introsort_loop cmp first last_it depth_limit v =
     (if last_it - first > 16
      then if depth_limit = 0 then partial_sort cmp first last_it last_it v
           else (let (cut, v1) = unguarded_partition_pivot cmp first last_it v
                 in introsort_loop cmp first cut (depth_limit - 1)
                      (introsort_loop cmp cut last_it (depth_limit - 1) v1))
      else v)"
  by pat_completeness auto
termination
  by (relation "measure (\<lambda>(cmp, first, last_it, depth_limit, v). depth_limit)") auto

declare introsort_loop.simps [simp del]

text \<open>Insertion sort.\<close>

function unguarded_linear_insert_loop ::
  "('a \<Rightarrow> 'a \<Rightarrow> bool) \<Rightarrow> 'a \<Rightarrow> nat \<Rightarrow> 'a list \<Rightarrow> 'a list" where
  "unguarded_linear_insert_loop cmp val last_it v =
     (if 0 < last_it \<and> cmp val (v ! (last_it - 1))
      then unguarded_linear_insert_loop cmp val (last_it - 1) (v[last_it := v ! (last_it - 1)])
      else v[last_it := val])"
  by pat_completeness auto
termination
  by (relation "measure (\<lambda>(cmp, val, last_it, v). last_it)") auto

declare unguarded_linear_insert_loop.simps [simp del]

definition unguarded_linear_insert :: "('a \<Rightarrow> 'a \<Rightarrow> bool) \<Rightarrow> nat \<Rightarrow> 'a list \<Rightarrow> 'a list" where
  "unguarded_linear_insert cmp last_it v = unguarded_linear_insert_loop cmp (v ! last_it) last_it v"

text \<open>\<open>std::move_backward\<close>: the range from \<open>first\<close> to \<open>last_it\<close> copied so that it ends at \<open>d_last\<close>.\<close>

definition move_backward :: "nat \<Rightarrow> nat \<Rightarrow> nat \<Rightarrow> 'a list \<Rightarrow> 'a list" where
  "move_backward first last_it d_last v =
     take (d_last - (last_it - first)) v @ take (last_it - first) (drop first v) @ drop d_last v"

function insertion_sort_loop ::
  "('a \<Rightarrow> 'a \<Rightarrow> bool) \<Rightarrow> nat \<Rightarrow> nat \<Rightarrow> nat \<Rightarrow> 'a list \<Rightarrow> 'a list" where
  "insertion_sort_loop cmp first last_it i v =
     (if i < last_it
      then insertion_sort_loop cmp first last_it (i + 1)
             (if cmp (v ! i) (v ! first)
              then (move_backward first i (i + 1) v)[first := v ! i]
              else unguarded_linear_insert cmp i v)
      else v)"
  by pat_completeness auto
termination
  by (relation "measure (\<lambda>(cmp, first, last_it, i, v). last_it - i)") auto

declare insertion_sort_loop.simps [simp del]

definition insertion_sort :: "('a \<Rightarrow> 'a \<Rightarrow> bool) \<Rightarrow> nat \<Rightarrow> nat \<Rightarrow> 'a list \<Rightarrow> 'a list" where
  "insertion_sort cmp first last_it v =
     (if first = last_it then v else insertion_sort_loop cmp first last_it (first + 1) v)"

function unguarded_insertion_sort ::
  "('a \<Rightarrow> 'a \<Rightarrow> bool) \<Rightarrow> nat \<Rightarrow> nat \<Rightarrow> 'a list \<Rightarrow> 'a list" where
  "unguarded_insertion_sort cmp first last_it v =
     (if first < last_it
      then unguarded_insertion_sort cmp (first + 1) last_it (unguarded_linear_insert cmp first v)
      else v)"
  by pat_completeness auto
termination
  by (relation "measure (\<lambda>(cmp, first, last_it, v). last_it - first)") auto

declare unguarded_insertion_sort.simps [simp del]

definition final_insertion_sort ::
  "('a \<Rightarrow> 'a \<Rightarrow> bool) \<Rightarrow> nat \<Rightarrow> nat \<Rightarrow> 'a list \<Rightarrow> 'a list" where
  "final_insertion_sort cmp first last_it v =
     (if last_it - first > 16
      then unguarded_insertion_sort cmp (first + 16) last_it
             (insertion_sort cmp first (first + 16) v)
      else insertion_sort cmp first last_it v)"

text \<open>\<open>std::__lg\<close>: the position of the highest set bit.\<close>

function lg :: "nat \<Rightarrow> nat" where
  "lg n = (if n < 2 then 0 else 1 + lg (n div 2))"
  by pat_completeness auto
termination
  by (relation "measure (\<lambda>n. n)") auto

declare lg.simps [simp del]

definition libstdcxx_sort :: "('a \<Rightarrow> 'a \<Rightarrow> bool) \<Rightarrow> 'a list \<Rightarrow> 'a list" where
  "libstdcxx_sort cmp v =
     (let first = 0; last_it = length v
      in if first \<noteq> last_it
         then final_insertion_sort cmp first last_it
                (introsort_loop cmp first last_it (lg (last_it - first) * 2) v)
         else v)"

section \<open>Specification-side notions\<close>

text \<open>
  What the C++ standard requires of a comparator (a strict weak ordering: irreflexive,
  transitive, and with a transitive equivalence of the elements that neither comes before
  the other), and what it guarantees of \<open>std::sort\<close> for every such comparator: the
  result is a permutation of the input in which no later element comes before an earlier
  one. The order of equivalent elements is left open.
\<close>

definition strict_weak_order :: "('a \<Rightarrow> 'a \<Rightarrow> bool) \<Rightarrow> bool" where
  "strict_weak_order cmp =
     ((\<forall>a. \<not> cmp a a) \<and>
      (\<forall>a b c. cmp a b \<and> cmp b c \<longrightarrow> cmp a c) \<and>
      (\<forall>a b c. \<not> cmp a b \<and> \<not> cmp b a \<and> \<not> cmp b c \<and> \<not> cmp c b \<longrightarrow> \<not> cmp a c \<and> \<not> cmp c a))"

definition std_sort_guarantee ::
  "((ItemData \<Rightarrow> ItemData \<Rightarrow> bool) \<Rightarrow> ItemData list \<Rightarrow> ItemData list) \<Rightarrow> bool" where
  "std_sort_guarantee std_sort =
     (\<forall>cmp xs. strict_weak_order cmp \<longrightarrow>
        mset (std_sort cmp xs) = mset xs \<and> sorted_wrt (\<lambda>a b. \<not> cmp b a) (std_sort cmp xs))"

text \<open>
  A sort with the contract of \<open>std::sort\<close>, used to run the engine on concrete inputs:
  insertion sort under the given comparator, which keeps elements that compare equal in
  input order.
\<close>

fun insert_in_order :: "('a \<Rightarrow> 'a \<Rightarrow> bool) \<Rightarrow> 'a \<Rightarrow> 'a list \<Rightarrow> 'a list" where
  "insert_in_order cmp x [] = [x]"
| "insert_in_order cmp x (y # ys) =
     (if cmp y x then y # insert_in_order cmp x ys else x # y # ys)"

fun stable_sort_by_priority ::
  "(ItemData \<Rightarrow> ItemData \<Rightarrow> bool) \<Rightarrow> ItemData list \<Rightarrow> ItemData list" where
  "stable_sort_by_priority cmp [] = []"
| "stable_sort_by_priority cmp (x # xs) =
     insert_in_order cmp x (stable_sort_by_priority cmp xs)"

text \<open>
  Equal priorities keep their input order: for every priority of the input, the items of
  that priority come in the same order in both lists.
\<close>

definition ties_in_input_order :: "ItemData list \<Rightarrow> ItemData list \<Rightarrow> bool" where
  "ties_in_input_order items processed =
     (\<forall>p \<in> set (map i_priority items).
        filter (\<lambda>x. i_priority x = p) processed = filter (\<lambda>x. i_priority x = p) items)"

text \<open>The list Phase 3 works through: the backlog Phase 1 leaves, passed on by Phase 2.\<close>

definition phase3_worklist ::
  "((ItemData \<Rightarrow> ItemData \<Rightarrow> bool) \<Rightarrow> ItemData list \<Rightarrow> ItemData list) \<Rightarrow> ItemData list
     \<Rightarrow> ContainerData list \<Rightarrow> (string \<times> PlacementInfo list) list \<Rightarrow> ItemData list" where
  "phase3_worklist std_sort items containers m =
     fst (phase2 (phase1 (load_containers_map containers []) (map c_containerId containers)
                    (std_sort higher_priority_first items) (initial_state m)))"

text \<open>The strings of a list joined with a separator, as the specification writes it.\<close>

fun joined :: "string \<Rightarrow> string list \<Rightarrow> string" where
  "joined sep [] = []"
| "joined sep [x] = x"
| "joined sep (x # y # ys) = x @ sep @ joined sep (y # ys)"

text \<open>
  The live placements as public results, and their item ids, in the order of the
  \<open>currentPlacements\<close> map.
\<close>

definition live_results :: "(string \<times> PlacementInfo list) list \<Rightarrow> PlacementResult list" where
  "live_results m =
     concat (map (\<lambda>pair. map (\<lambda>p. \<lparr>r_itemId = p_itemId p, r_containerId = fst pair,
                                        r_position = p_position p\<rparr>) (snd pair)) m)"

definition live_item_ids :: "(string \<times> PlacementInfo list) list \<Rightarrow> string list" where
  "live_item_ids m = concat (map (\<lambda>pair. map p_itemId (snd pair)) m)"



subsection \<open>Invariants of the loops\<close>

text \<open>What every phase keeps of the output record under construction.\<close>

definition out_inv :: "PlacementOutput \<Rightarrow> bool" where
  "out_inv out =
     (rearrangements out = [] \<and> success out = (failedItemIds out = []) \<and>
      (failedItemIds out = [] \<longrightarrow> error out = None))"

text \<open>
  Every entry of \<open>final_placements_map\<close> is filed under its own item id, and every
  processed id has an entry or is a failed id.
\<close>

definition ids_inv :: "SimState \<Rightarrow> bool" where
  "ids_inv st =
     ((\<forall>pair \<in> set (final_placements_map st). r_itemId (snd pair) = fst pair) \<and>
      processed_item_ids st
        \<subseteq> fst ` set (final_placements_map st) \<union> set (failedItemIds (st_output st)))"

section \<open>The inputs of the concrete scenarios\<close>

text \<open>
  Scenario 1 of the specification: an empty container of 10 x 10 x 10 in zone Z1 and an
  item of 2 x 3 x 1, priority 50, preferred zone Z1. The fields the scenario leaves open
  (name, mass, expiry date, usage limit) do not enter the computation.
\<close>

definition scenario1_item_A :: ItemData where
  "scenario1_item_A =
     \<lparr>i_itemId = ''A'', i_name = ''A'', i_width = 2, i_depth = 3, i_height = 1, i_mass = 1,
      i_priority = 50, i_expiryDate = None, i_usageLimit = None, i_preferredZone = Some ''Z1''\<rparr>"

definition scenario1_container_C1 :: ContainerData where
  "scenario1_container_C1 =
     \<lparr>c_containerId = ''C1'', c_zone = ''Z1'', c_width = 10, c_depth = 10, c_height = 10\<rparr>"

text \<open>Scenario 4: containers C1 (zone Z1, holding L) and C2 (zone Z2, empty), incoming H.\<close>

definition scenario4_item_H :: ItemData where
  "scenario4_item_H =
     \<lparr>i_itemId = ''H'', i_name = ''H'', i_width = 4, i_depth = 4, i_height = 2, i_mass = 1,
      i_priority = 90, i_expiryDate = None, i_usageLimit = None, i_preferredZone = Some ''Z1''\<rparr>"

definition scenario4_container_C1 :: ContainerData where
  "scenario4_container_C1 =
     \<lparr>c_containerId = ''C1'', c_zone = ''Z1'', c_width = 4, c_depth = 4, c_height = 4\<rparr>"

definition scenario4_container_C2 :: ContainerData where
  "scenario4_container_C2 =
     \<lparr>c_containerId = ''C2'', c_zone = ''Z2'', c_width = 4, c_depth = 4, c_height = 4\<rparr>"

definition scenario4_placement_L :: PlacementInfo where
  "scenario4_placement_L =
     \<lparr>p_itemId = ''L'', p_containerId = ''C1'',
      p_position = mk_pos (mk_coords 0 0 0) (mk_coords 4 4 1), p_priority = 10\<rparr>"

text \<open>Two items of equal priority that compete for a container with room for one.\<close>

definition tie_item_A :: ItemData where
  "tie_item_A =
     \<lparr>i_itemId = ''A'', i_name = ''A'', i_width = 1, i_depth = 1, i_height = 1, i_mass = 1,
      i_priority = 50, i_expiryDate = None, i_usageLimit = None, i_preferredZone = None\<rparr>"

definition tie_item_B :: ItemData where
  "tie_item_B =
     \<lparr>i_itemId = ''B'', i_name = ''B'', i_width = 1, i_depth = 1, i_height = 1, i_mass = 1,
      i_priority = 50, i_expiryDate = None, i_usageLimit = None, i_preferredZone = None\<rparr>"

definition unit_container :: ContainerData where
  "unit_container =
     \<lparr>c_containerId = ''C1'', c_zone = ''Z1'', c_width = 1, c_depth = 1, c_height = 1\<rparr>"

text \<open>
  Seventeen unit cubes of equal priority and without preferred zone, one more than the
  library's sort handles by insertion sort alone, for a container with room for one.
\<close>

definition equal_priority_item :: "string \<Rightarrow> ItemData" where
  "equal_priority_item item_id =
     \<lparr>i_itemId = item_id, i_name = item_id, i_width = 1, i_depth = 1, i_height = 1, i_mass = 1,
      i_priority = 50, i_expiryDate = None, i_usageLimit = None, i_preferredZone = None\<rparr>"

definition seventeen_items :: "ItemData list" where
  "seventeen_items =
     map equal_priority_item
       [''I00'', ''I01'', ''I02'', ''I03'', ''I04'', ''I05'', ''I06'', ''I07'', ''I08'',
        ''I09'', ''I10'', ''I11'', ''I12'', ''I13'', ''I14'', ''I15'', ''I16'']"

text \<open>
  Inputs that break the input invariants: an item of negative width, the same with two
  sides too long for any container at hand, and a live placement filed under a container
  id that no container of the request has.
\<close>

definition malformed_item :: ItemData where
  "malformed_item =
     \<lparr>i_itemId = ''A'', i_name = ''A'', i_width = - 1, i_depth = 2, i_height = 2, i_mass = 1,
      i_priority = 50, i_expiryDate = None, i_usageLimit = None, i_preferredZone = None\<rparr>"

definition oversized_malformed_item :: ItemData where
  "oversized_malformed_item =
     \<lparr>i_itemId = ''A'', i_name = ''A'', i_width = - 1, i_depth = 20, i_height = 20, i_mass = 1,
      i_priority = 50, i_expiryDate = None, i_usageLimit = None, i_preferredZone = None\<rparr>"

definition dangling_placement :: PlacementInfo where
  "dangling_placement =
     \<lparr>p_itemId = ''X'', p_containerId = ''CX'',
      p_position = mk_pos (mk_coords 0 0 0) (mk_coords 1 1 1), p_priority = 50\<rparr>"

section \<open>The invariants of the simulation state\<close>















text \<open>
  The invariant of the loops of Phases 1 and 3. \<open>sim_list st cid\<close> is the read
  \<open>simulation_placements[cid]\<close>; \<open>E\<close> is the set of item ids of the live placements
  and \<open>S\<close> says whether the live placements were stable on entry.
\<close>

definition sim_list :: "SimState \<Rightarrow> string \<Rightarrow> PlacementInfo list" where
  "sim_list st cid = map_index [] (simulation_placements st) cid"








section \<open>Properties of the geometry primitives\<close>

lemma is_stable_loop_iff:
  "is_stable_loop pos placed \<longleftrightarrow>
     (\<exists>q \<in> set placed.
        \<bar>height (endCoordinates (p_position q)) - height (startCoordinates pos)\<bar> < COORD_TOLERANCE \<and>
        wd_projections_overlap pos (p_position q))"
  by (induction placed) (auto simp: wd_projections_overlap_def Let_def)

lemma boxes_overlap_wd:
  "boxes_overlap a b \<longleftrightarrow>
     wd_projections_overlap a b \<and>
     \<not> (height (endCoordinates a) \<le> height (startCoordinates b) + COORD_TOLERANCE \<or>
        height (endCoordinates b) \<le> height (startCoordinates a) + COORD_TOLERANCE)"
  by (auto simp: boxes_overlap_def wd_projections_overlap_def Let_def)

text \<open>
  Claim C2. \<open>is_stable pos container placed\<close> holds exactly when the candidate starts
  on the floor (\<open>|pos.start.h| < \<epsilon>\<close>) or some placed item \<open>q\<close> has its top at the
  candidate's base (\<open>|q.end.h - pos.start.h| < \<epsilon>\<close>) and overlaps the candidate strictly
  on the width and the depth axis, which is the overlap test of \<open>boxes_overlap\<close> on
  these two axes. The centre of the base is not the criterion: a candidate resting on the
  corner of a supporter is stable although the first definition of the file, which asks for
  the centre, rejects it.
\<close>

theorem is_stable_floor_or_support:
  "(is_stable pos container placed \<longleftrightarrow>
      \<bar>height (startCoordinates pos)\<bar> < COORD_TOLERANCE \<or>
      (\<exists>q \<in> set placed.
         \<bar>height (endCoordinates (p_position q)) - height (startCoordinates pos)\<bar> < COORD_TOLERANCE \<and>
         wd_projections_overlap pos (p_position q)))
   \<and> (boxes_overlap a b \<longleftrightarrow>
        wd_projections_overlap a b \<and>
        \<not> (height (endCoordinates a) \<le> height (startCoordinates b) + COORD_TOLERANCE \<or>
           height (endCoordinates b) \<le> height (startCoordinates a) + COORD_TOLERANCE))
   \<and> (let supporter = \<lparr>p_itemId = ''B'', p_containerId = ''C1'',
                          p_position = mk_pos (mk_coords 0 0 0) (mk_coords 1 1 1), p_priority = 50\<rparr>;
            corner = mk_pos (mk_coords (9/10) (9/10) 1) (mk_coords 3 3 2)
        in is_stable corner c [supporter] \<and> \<not> is_stable_first_definition corner c [supporter])"
proof (intro conjI)
  show "is_stable pos container placed \<longleftrightarrow>
      \<bar>height (startCoordinates pos)\<bar> < COORD_TOLERANCE \<or>
      (\<exists>q \<in> set placed.
         \<bar>height (endCoordinates (p_position q)) - height (startCoordinates pos)\<bar> < COORD_TOLERANCE \<and>
         wd_projections_overlap pos (p_position q))"
    by (simp add: is_stable_def is_stable_loop_iff)
  show "boxes_overlap a b \<longleftrightarrow>
        wd_projections_overlap a b \<and>
        \<not> (height (endCoordinates a) \<le> height (startCoordinates b) + COORD_TOLERANCE \<or>
           height (endCoordinates b) \<le> height (startCoordinates a) + COORD_TOLERANCE)"
    by (rule boxes_overlap_wd)
  show "let supporter = \<lparr>p_itemId = ''B'', p_containerId = ''C1'',
                          p_position = mk_pos (mk_coords 0 0 0) (mk_coords 1 1 1), p_priority = 50\<rparr>;
            corner = mk_pos (mk_coords (9/10) (9/10) 1) (mk_coords 3 3 2)
        in is_stable corner c [supporter] \<and> \<not> is_stable_first_definition corner c [supporter]"
    by (simp add: is_stable_def is_stable_first_definition_def mk_pos_def mk_coords_def
        COORD_TOLERANCE_def Let_def)
qed

theorem is_stable_floor_or_support_witness:
  "is_stable (mk_pos (mk_coords 0 0 1) (mk_coords 2 2 2))
     \<lparr>c_containerId = ''C1'', c_zone = ''Z1'', c_width = 4, c_depth = 4, c_height = 4\<rparr>
     [\<lparr>p_itemId = ''B'', p_containerId = ''C1'',
       p_position = mk_pos (mk_coords 0 0 0) (mk_coords 4 4 1), p_priority = 50\<rparr>]
   \<and> \<not> is_stable (mk_pos (mk_coords 0 0 2) (mk_coords 2 2 3))
     \<lparr>c_containerId = ''C1'', c_zone = ''Z1'', c_width = 4, c_depth = 4, c_height = 4\<rparr>
     [\<lparr>p_itemId = ''B'', p_containerId = ''C1'',
       p_position = mk_pos (mk_coords 0 0 0) (mk_coords 4 4 1), p_priority = 50\<rparr>]"
  using is_stable_floor_or_support
      [of "mk_pos (mk_coords 0 0 1) (mk_coords 2 2 2)"
          "\<lparr>c_containerId = ''C1'', c_zone = ''Z1'', c_width = 4, c_depth = 4, c_height = 4\<rparr>"
          "[\<lparr>p_itemId = ''B'', p_containerId = ''C1'',
             p_position = mk_pos (mk_coords 0 0 0) (mk_coords 4 4 1), p_priority = 50\<rparr>]"]
    is_stable_floor_or_support
      [of "mk_pos (mk_coords 0 0 2) (mk_coords 2 2 3)"
          "\<lparr>c_containerId = ''C1'', c_zone = ''Z1'', c_width = 4, c_depth = 4, c_height = 4\<rparr>"
          "[\<lparr>p_itemId = ''B'', p_containerId = ''C1'',
             p_position = mk_pos (mk_coords 0 0 0) (mk_coords 4 4 1), p_priority = 50\<rparr>]"]
  by (simp add: wd_projections_overlap_def mk_pos_def mk_coords_def COORD_TOLERANCE_def)

section \<open>Library facts\<close>

subsection \<open>The contract of the sort\<close>

lemma strict_weak_order_higher_priority_first: "strict_weak_order higher_priority_first"
  by (auto simp: strict_weak_order_def higher_priority_first_def)

lemma strict_weak_order_asym: "strict_weak_order cmp \<Longrightarrow> cmp a b \<Longrightarrow> \<not> cmp b a"
  unfolding strict_weak_order_def by blast

lemma strict_weak_order_negtrans:
  "strict_weak_order cmp \<Longrightarrow> \<not> cmp a b \<Longrightarrow> \<not> cmp b c \<Longrightarrow> \<not> cmp a c"
  unfolding strict_weak_order_def by metis

lemma std_sort_guarantee_contract: "std_sort_guarantee s \<Longrightarrow> std_sort_contract s"
  by (simp add: std_sort_guarantee_def std_sort_contract_def strict_weak_order_higher_priority_first)

lemma mset_insert_in_order: "mset (insert_in_order cmp x ys) = add_mset x (mset ys)"
  by (induction ys) simp_all

lemma set_insert_in_order: "set (insert_in_order cmp x ys) = insert x (set ys)"
  by (induction ys) auto

lemma sorted_insert_in_order:
  assumes "strict_weak_order cmp" "sorted_wrt (\<lambda>a b. \<not> cmp b a) ys"
  shows "sorted_wrt (\<lambda>a b. \<not> cmp b a) (insert_in_order cmp x ys)"
  using assms(2)
proof (induction ys)
  case Nil
  then show ?case by simp
next
  case (Cons y ys)
  show ?case
  proof (cases "cmp y x")
    case True
    with assms(1) have "\<not> cmp x y" by (rule strict_weak_order_asym)
    with True Cons show ?thesis by (auto simp: set_insert_in_order)
  next
    case False
    have "\<not> cmp z x" if "z \<in> set ys" for z
    proof -
      from Cons.prems that have "\<not> cmp z y" by simp
      from assms(1) this False show ?thesis by (rule strict_weak_order_negtrans)
    qed
    with False Cons.prems show ?thesis by auto
  qed
qed

lemma mset_stable_sort_by_priority: "mset (stable_sort_by_priority cmp xs) = mset xs"
  by (induction xs) (simp_all add: mset_insert_in_order)

lemma sorted_stable_sort_by_priority:
  "strict_weak_order cmp \<Longrightarrow> sorted_wrt (\<lambda>a b. \<not> cmp b a) (stable_sort_by_priority cmp xs)"
  by (induction xs) (simp_all add: sorted_insert_in_order)

lemma std_sort_guarantee_stable: "std_sort_guarantee stable_sort_by_priority"
  by (simp add: std_sort_guarantee_def mset_stable_sort_by_priority sorted_stable_sort_by_priority)

lemma std_sort_contract_stable: "std_sort_contract stable_sort_by_priority"
  by (rule std_sort_guarantee_contract[OF std_sort_guarantee_stable])

lemma std_sort_contract_Nil: "std_sort_contract s \<Longrightarrow> s higher_priority_first [] = []"
  by (auto simp: std_sort_contract_def dest: spec[where x="[]"])

lemma std_sort_contract_single: "std_sort_contract s \<Longrightarrow> s higher_priority_first [x] = [x]"
proof -
  assume "std_sort_contract s"
  then have "mset (s higher_priority_first [x]) = mset [x]" by (simp add: std_sort_contract_def)
  then show ?thesis by (metis mset_single_iff_right mset.simps(1) mset.simps(2))
qed

lemma std_sort_contract_set:
  "std_sort_contract s \<Longrightarrow> set (s higher_priority_first xs) = set xs"
  by (metis std_sort_contract_def set_mset_mset)

subsection \<open>The sort of the GNU C++ library meets the guarantee\<close>

text \<open>
  Partitioning and heap sort only permute the vector, and the final insertion sort sorts
  whatever it is given, so the library's sort does what the standard guarantees.
\<close>

lemma length_iter_swap [simp]: "length (iter_swap a b v) = length v"
  by (simp add: iter_swap_def)

lemma mset_iter_swap: "a < length v \<Longrightarrow> b < length v \<Longrightarrow> mset (iter_swap a b v) = mset v"
  unfolding iter_swap_def by (rule mset_swap)

lemma length_move_median_to_first [simp]:
  "length (move_median_to_first cmp result a b c v) = length v"
  by (simp add: move_median_to_first_def)

lemma mset_move_median_to_first:
  "result < length v \<Longrightarrow> a < length v \<Longrightarrow> b < length v \<Longrightarrow> c < length v \<Longrightarrow>
   mset (move_median_to_first cmp result a b c v) = mset v"
  by (simp add: move_median_to_first_def mset_iter_swap)

lemma partition_advance_le:
  "first \<le> length v \<Longrightarrow> partition_advance cmp v pivot first \<le> length v"
  by (induction cmp v pivot first rule: partition_advance.induct)
     (subst partition_advance.simps, auto)

lemma partition_retreat_le: "partition_retreat cmp v pivot last_it \<le> last_it"
  by (induction cmp v pivot last_it rule: partition_retreat.induct)
     (subst partition_retreat.simps, auto)

lemma unguarded_partition_perm:
  "first \<le> length v \<Longrightarrow> last_it \<le> length v \<Longrightarrow>
   length (snd (unguarded_partition cmp first last_it pivot v)) = length v \<and>
   mset (snd (unguarded_partition cmp first last_it pivot v)) = mset v \<and>
   fst (unguarded_partition cmp first last_it pivot v) \<le> length v"
proof (induction cmp first last_it pivot v rule: unguarded_partition.induct)
  case (1 cmp first last_it pivot v)
  define first' where "first' = partition_advance cmp v pivot first"
  define last' where "last' = partition_retreat cmp v pivot (last_it - 1)"
  have f: "first' \<le> length v" unfolding first'_def using "1.prems" by (simp add: partition_advance_le)
  have l: "last' \<le> last_it - 1" unfolding last'_def by (rule partition_retreat_le)
  have step: "unguarded_partition cmp first last_it pivot v =
      (if \<not> first' < last' then (first', v)
       else unguarded_partition cmp (first' + 1) last' pivot (iter_swap first' last' v))"
    unfolding first'_def last'_def by (subst unguarded_partition.simps) (simp only: Let_def)
  show ?case
  proof (cases "first' < last'")
    case False
    then show ?thesis using f unfolding step by simp
  next
    case True
    with l "1.prems" have b: "first' < length v" "last' < length v" "first' + 1 \<le> length v" by auto
    have ih: "length (snd (unguarded_partition cmp (first' + 1) last' pivot (iter_swap first' last' v)))
          = length (iter_swap first' last' v) \<and>
        mset (snd (unguarded_partition cmp (first' + 1) last' pivot (iter_swap first' last' v)))
          = mset (iter_swap first' last' v) \<and>
        fst (unguarded_partition cmp (first' + 1) last' pivot (iter_swap first' last' v))
          \<le> length (iter_swap first' last' v)"
      using True b by (intro "1.IH"[OF first'_def last'_def]) simp_all
    with True b show ?thesis unfolding step by (simp add: mset_iter_swap)
  qed
qed

lemma unguarded_partition_pivot_perm:
  assumes "last_it \<le> length v" "last_it - first > 16"
  shows "length (snd (unguarded_partition_pivot cmp first last_it v)) = length v \<and>
         mset (snd (unguarded_partition_pivot cmp first last_it v)) = mset v \<and>
         fst (unguarded_partition_pivot cmp first last_it v) \<le> length v"
proof -
  let ?v1 = "move_median_to_first cmp first (first + 1) (first + (last_it - first) div 2) (last_it - 1) v"
  from assms have m: "mset ?v1 = mset v"
    by (intro mset_move_median_to_first) auto
  from assms have "length (snd (unguarded_partition cmp (first + 1) last_it first ?v1)) = length ?v1 \<and>
      mset (snd (unguarded_partition cmp (first + 1) last_it first ?v1)) = mset ?v1 \<and>
      fst (unguarded_partition cmp (first + 1) last_it first ?v1) \<le> length ?v1"
    by (intro unguarded_partition_perm) auto
  with m show ?thesis by (simp add: unguarded_partition_pivot_def Let_def)
qed

lemma mset_move_hole:
  assumes "i < length v" "j < length v"
  shows "mset (v[i := v ! j, j := x]) = mset (v[i := x])"
proof (cases "i = j")
  case True
  then show ?thesis by simp
next
  case False
  let ?w = "v[i := x]"
  from assms have "mset (?w[j := ?w ! i, i := ?w ! j]) = mset ?w"
    by (intro mset_swap) simp_all
  moreover from False assms have "?w[j := ?w ! i, i := ?w ! j] = v[i := v ! j, j := x]"
    by (simp add: list_update_swap[of i j] )
  ultimately show ?thesis by simp
qed

lemma push_heap_perm:
  "first + holeIndex < length v \<Longrightarrow>
   length (push_heap cmp first holeIndex topIndex val v) = length v \<and>
   mset (push_heap cmp first holeIndex topIndex val v) = mset (v[first + holeIndex := val])"
proof (induction cmp first holeIndex topIndex val v rule: push_heap.induct)
  case (1 cmp first holeIndex topIndex val v)
  define parent where "parent = (holeIndex - 1) div 2"
  define go where "go = (holeIndex > topIndex \<and> cmp (v ! (first + parent)) val)"
  have step: "push_heap cmp first holeIndex topIndex val v =
      (if go
       then push_heap cmp first parent topIndex val (v[first + holeIndex := v ! (first + parent)])
       else v[first + holeIndex := val])"
    unfolding parent_def go_def by (subst push_heap.simps) (simp only: Let_def)
  show ?case
  proof (cases go)
    case False
    then show ?thesis unfolding step by simp
  next
    case True
    have p: "parent \<le> holeIndex" unfolding parent_def by simp
    let ?v1 = "v[first + holeIndex := v ! (first + parent)]"
    from True have "holeIndex > topIndex \<and> cmp (v ! (first + parent)) val" by (simp add: go_def)
    with p "1.prems" have "length (push_heap cmp first parent topIndex val ?v1) = length ?v1 \<and>
        mset (push_heap cmp first parent topIndex val ?v1) = mset (?v1[first + parent := val])"
      by (intro "1.IH"[OF parent_def]) simp_all
    moreover from p "1.prems" have "mset (?v1[first + parent := val]) = mset (v[first + holeIndex := val])"
      by (intro mset_move_hole) simp_all
    ultimately show ?thesis using True unfolding step by simp
  qed
qed

lemma adjust_heap_loop_perm:
  assumes "first + len \<le> length v" "holeIndex < len" "secondChild = holeIndex"
  shows "case adjust_heap_loop cmp first len holeIndex secondChild v of
           (holeIndex1, secondChild1, v1) \<Rightarrow>
             length v1 = length v \<and> secondChild1 = holeIndex1 \<and> holeIndex1 < len \<and>
             (\<forall>val. mset (v1[first + holeIndex1 := val]) = mset (v[first + holeIndex := val]))"
  using assms
proof (induction cmp first len holeIndex secondChild v rule: adjust_heap_loop.induct)
  case (1 cmp first len holeIndex secondChild v)
  define secondChild1 where "secondChild1 = 2 * (secondChild + 1)"
  define secondChild2 where "secondChild2 =
     (if cmp (v ! (first + secondChild1)) (v ! (first + (secondChild1 - 1)))
      then secondChild1 - 1 else secondChild1)"
  have step: "adjust_heap_loop cmp first len holeIndex secondChild v =
      (if secondChild < (len - 1) div 2
       then adjust_heap_loop cmp first len secondChild2 secondChild2
              (v[first + holeIndex := v ! (first + secondChild2)])
       else (holeIndex, secondChild, v))"
    unfolding secondChild2_def secondChild1_def
    by (subst adjust_heap_loop.simps) (simp only: Let_def)
  show ?case
  proof (cases "secondChild < (len - 1) div 2")
    case False
    with "1.prems" show ?thesis unfolding step by simp
  next
    case True
    then have b: "secondChild2 < len" unfolding secondChild2_def secondChild1_def by auto
    let ?v1 = "v[first + holeIndex := v ! (first + secondChild2)]"
    from b "1.prems" have ih: "case adjust_heap_loop cmp first len secondChild2 secondChild2 ?v1 of
           (holeIndex1, secondChild1, v1) \<Rightarrow>
             length v1 = length ?v1 \<and> secondChild1 = holeIndex1 \<and> holeIndex1 < len \<and>
             (\<forall>val. mset (v1[first + holeIndex1 := val]) = mset (?v1[first + secondChild2 := val]))"
      using True by (intro "1.IH"[OF True secondChild1_def secondChild2_def]) simp_all
    from b "1.prems" have "mset (?v1[first + secondChild2 := val]) = mset (v[first + holeIndex := val])" for val
      by (intro mset_move_hole) simp_all
    with ih True show ?thesis unfolding step by (auto split: prod.splits)
  qed
qed

lemma adjust_heap_perm:
  assumes "first + len \<le> length v" "holeIndex < len"
  shows "length (adjust_heap cmp first holeIndex len val v) = length v \<and>
         mset (adjust_heap cmp first holeIndex len val v) = mset (v[first + holeIndex := val])"
proof -
  obtain h1 s1 v1 where r: "adjust_heap_loop cmp first len holeIndex holeIndex v = (h1, s1, v1)"
    by (cases "adjust_heap_loop cmp first len holeIndex holeIndex v") auto
  from adjust_heap_loop_perm[OF assms refl, where cmp=cmp] r
  have l: "length v1 = length v" and hs: "s1 = h1" and hl: "h1 < len"
    and m: "\<And>val. mset (v1[first + h1 := val]) = mset (v[first + holeIndex := val])"
    by simp_all
  show ?thesis
  proof (cases "len mod 2 = 0 \<and> 2 \<le> len \<and> s1 = (len - 2) div 2")
    case False
    from hl assms l have "length (push_heap cmp first h1 holeIndex val v1) = length v1 \<and>
        mset (push_heap cmp first h1 holeIndex val v1) = mset (v1[first + h1 := val])"
      by (intro push_heap_perm) simp
    with False l m r show ?thesis by (auto simp: adjust_heap_def Let_def)
  next
    case True
    let ?h2 = "2 * (s1 + 1) - 1"
    let ?v2 = "v1[first + h1 := v1 ! (first + ?h2)]"
    from True have h2: "?h2 < len" by auto
    with assms l have "length (push_heap cmp first ?h2 holeIndex val ?v2) = length ?v2 \<and>
        mset (push_heap cmp first ?h2 holeIndex val ?v2) = mset (?v2[first + ?h2 := val])"
      by (intro push_heap_perm) simp
    moreover from h2 hl assms l have "mset (?v2[first + ?h2 := val]) = mset (v1[first + h1 := val])"
      by (intro mset_move_hole) simp_all
    ultimately show ?thesis using True l m r by (auto simp: adjust_heap_def Let_def)
  qed
qed

lemma pop_heap_perm:
  assumes "first < last_it" "last_it \<le> length v" "result < length v"
  shows "length (pop_heap cmp first last_it result v) = length v \<and>
         mset (pop_heap cmp first last_it result v) = mset v"
proof -
  let ?v1 = "v[result := v ! first]"
  from assms have "length (adjust_heap cmp first 0 (last_it - first) (v ! result) ?v1) = length ?v1 \<and>
      mset (adjust_heap cmp first 0 (last_it - first) (v ! result) ?v1)
        = mset (?v1[first + 0 := v ! result])"
    by (intro adjust_heap_perm) simp_all
  moreover from assms have "mset (v[result := v ! first, first := v ! result]) = mset v"
    by (intro mset_swap) simp_all
  ultimately show ?thesis by (simp add: pop_heap_def)
qed

lemma make_heap_loop_perm:
  "first + len \<le> length v \<Longrightarrow> parent < len \<Longrightarrow>
   length (make_heap_loop cmp first len parent v) = length v \<and>
   mset (make_heap_loop cmp first len parent v) = mset v"
proof (induction cmp first len parent v rule: make_heap_loop.induct)
  case (1 cmp first len parent v)
  let ?v1 = "adjust_heap cmp first parent len (v ! (first + parent)) v"
  from "1.prems" have a: "length ?v1 = length v \<and> mset ?v1 = mset (v[first + parent := v ! (first + parent)])"
    by (intro adjust_heap_perm) simp_all
  then have a': "length ?v1 = length v" "mset ?v1 = mset v" by simp_all
  show ?case
  proof (cases "parent = 0")
    case True
    with a' show ?thesis by (subst (1 2) make_heap_loop.simps) (simp add: Let_def)
  next
    case False
    with "1.prems" a' have "length (make_heap_loop cmp first len (parent - 1) ?v1) = length ?v1 \<and>
        mset (make_heap_loop cmp first len (parent - 1) ?v1) = mset ?v1"
      by (intro "1.IH"[OF refl]) simp_all
    with False a' show ?thesis by (subst (1 2) make_heap_loop.simps) (simp add: Let_def)
  qed
qed

lemma make_heap_perm:
  "last_it \<le> length v \<Longrightarrow>
   length (make_heap cmp first last_it v) = length v \<and> mset (make_heap cmp first last_it v) = mset v"
  using make_heap_loop_perm[of first "last_it - first" v "(last_it - first - 2) div 2" cmp]
  by (auto simp: make_heap_def)

lemma heap_select_loop_perm:
  "first < middle \<Longrightarrow> middle \<le> length v \<Longrightarrow> last_it \<le> length v \<Longrightarrow>
   length (heap_select_loop cmp first middle last_it i v) = length v \<and>
   mset (heap_select_loop cmp first middle last_it i v) = mset v"
proof (induction cmp first middle last_it i v rule: heap_select_loop.induct)
  case (1 cmp first middle last_it i v)
  show ?case
  proof (cases "i < last_it")
    case False
    then show ?thesis by (subst (1 2) heap_select_loop.simps) simp
  next
    case True
    let ?v1 = "if cmp (v ! i) (v ! first) then pop_heap cmp first middle i v else v"
    from True "1.prems" have p: "length ?v1 = length v \<and> mset ?v1 = mset v"
      using pop_heap_perm[of first middle v i cmp] by auto
    with True "1.prems" have "length (heap_select_loop cmp first middle last_it (i + 1) ?v1) = length ?v1 \<and>
        mset (heap_select_loop cmp first middle last_it (i + 1) ?v1) = mset ?v1"
      by (intro "1.IH") simp_all
    with p True show ?thesis by (subst (1 2) heap_select_loop.simps) simp
  qed
qed

lemma sort_heap_perm:
  "last_it \<le> length v \<Longrightarrow>
   length (sort_heap cmp first last_it v) = length v \<and> mset (sort_heap cmp first last_it v) = mset v"
proof (induction cmp first last_it v rule: sort_heap.induct)
  case (1 cmp first last_it v)
  show ?case
  proof (cases "last_it - first > 1")
    case False
    then show ?thesis by (subst (1 2) sort_heap.simps) simp
  next
    case True
    let ?v1 = "pop_heap cmp first (last_it - 1) (last_it - 1) v"
    from True "1.prems" have p: "length ?v1 = length v \<and> mset ?v1 = mset v"
      by (intro pop_heap_perm) auto
    with True "1.prems" have "length (sort_heap cmp first (last_it - 1) ?v1) = length ?v1 \<and>
        mset (sort_heap cmp first (last_it - 1) ?v1) = mset ?v1"
      by (intro "1.IH") simp_all
    with p True show ?thesis by (subst (1 2) sort_heap.simps) simp
  qed
qed

lemma partial_sort_perm:
  assumes "first < middle" "middle \<le> length v" "last_it \<le> length v"
  shows "length (partial_sort cmp first middle last_it v) = length v \<and>
         mset (partial_sort cmp first middle last_it v) = mset v"
proof -
  let ?v1 = "make_heap cmp first middle v"
  from assms have 1: "length ?v1 = length v \<and> mset ?v1 = mset v" by (intro make_heap_perm)
  let ?v2 = "heap_select_loop cmp first middle last_it middle ?v1"
  from assms 1 have 2: "length ?v2 = length ?v1 \<and> mset ?v2 = mset ?v1"
    by (intro heap_select_loop_perm) simp_all
  from assms 1 2 have 3: "length (sort_heap cmp first middle ?v2) = length ?v2 \<and>
      mset (sort_heap cmp first middle ?v2) = mset ?v2"
    by (intro sort_heap_perm) simp
  from 1 2 3 show ?thesis by (simp add: partial_sort_def heap_select_def)
qed

lemma introsort_loop_perm:
  "last_it \<le> length v \<Longrightarrow>
   length (introsort_loop cmp first last_it depth_limit v) = length v \<and>
   mset (introsort_loop cmp first last_it depth_limit v) = mset v"
proof (induction cmp first last_it depth_limit v rule: introsort_loop.induct)
  case (1 cmp first last_it depth_limit v)
  show ?case
  proof (cases "last_it - first > 16")
    case False
    then show ?thesis by (subst (1 2) introsort_loop.simps) simp
  next
    case big: True
    show ?thesis
    proof (cases "depth_limit = 0")
      case True
      from big "1.prems" have "length (partial_sort cmp first last_it last_it v) = length v \<and>
          mset (partial_sort cmp first last_it last_it v) = mset v"
        by (intro partial_sort_perm) auto
      with big True show ?thesis by (subst (1 2) introsort_loop.simps) simp
    next
      case False
      obtain cut v1 where r: "unguarded_partition_pivot cmp first last_it v = (cut, v1)"
        by (cases "unguarded_partition_pivot cmp first last_it v") auto
      from unguarded_partition_pivot_perm[OF "1.prems" big, of cmp] r
      have p: "length v1 = length v" "mset v1 = mset v" "cut \<le> length v" by simp_all
      let ?v2 = "introsort_loop cmp cut last_it (depth_limit - 1) v1"
      from p "1.prems" have 2: "length ?v2 = length v1 \<and> mset ?v2 = mset v1"
        by (intro "1.IH"(1)[OF big False r[symmetric] refl]) simp
      from p 2 have 3: "length (introsort_loop cmp first cut (depth_limit - 1) ?v2) = length ?v2 \<and>
          mset (introsort_loop cmp first cut (depth_limit - 1) ?v2) = mset ?v2"
        by (intro "1.IH"(2)[OF big False r[symmetric] refl]) simp
      from big False r p 2 3 show ?thesis by (subst (1 2) introsort_loop.simps) simp
    qed
  qed
qed

lemma strict_weak_order_irrefl: "strict_weak_order cmp \<Longrightarrow> \<not> cmp a a"
  unfolding strict_weak_order_def by blast

lemma strict_weak_order_trans: "strict_weak_order cmp \<Longrightarrow> cmp a b \<Longrightarrow> cmp b c \<Longrightarrow> cmp a c"
  unfolding strict_weak_order_def by blast

lemma take_pred_snoc: "0 < n \<Longrightarrow> n \<le> length v \<Longrightarrow> take n v = take (n - 1) v @ [v ! (n - 1)]"
  by (cases n) (simp_all add: take_Suc_conv_app_nth)

lemma unguarded_linear_insert_loop_sorted:
  "strict_weak_order cmp \<Longrightarrow> last_it < length v \<Longrightarrow> sorted_wrt (\<lambda>a b. \<not> cmp b a) (take last_it v) \<Longrightarrow>
     length (unguarded_linear_insert_loop cmp val last_it v) = length v \<and>
     sorted_wrt (\<lambda>a b. \<not> cmp b a) (take (Suc last_it) (unguarded_linear_insert_loop cmp val last_it v)) \<and>
     mset (take (Suc last_it) (unguarded_linear_insert_loop cmp val last_it v))
       = add_mset val (mset (take last_it v)) \<and>
     drop (Suc last_it) (unguarded_linear_insert_loop cmp val last_it v) = drop (Suc last_it) v"
proof (induction cmp val last_it v rule: unguarded_linear_insert_loop.induct)
  case (1 cmp val last_it v)
  note swo = "1.prems"(1) and bound = "1.prems"(2) and srt0 = "1.prems"(3)
  define go where "go = (0 < last_it \<and> cmp val (v ! (last_it - 1)))"
  have step: "unguarded_linear_insert_loop cmp val last_it v =
      (if go then unguarded_linear_insert_loop cmp val (last_it - 1) (v[last_it := v ! (last_it - 1)])
       else v[last_it := val])"
    unfolding go_def by (subst unguarded_linear_insert_loop.simps) (rule refl)
  show ?case
  proof (cases go)
    case False
    have t: "take (Suc last_it) (v[last_it := val]) = take last_it v @ [val]"
      using bound by (simp add: take_Suc_conv_app_nth)
    have "\<not> cmp val x" if "x \<in> set (take last_it v)" for x
    proof (cases "last_it = 0")
      case True
      with that show ?thesis by simp
    next
      case nz: False
      with False have nc: "\<not> cmp val (v ! (last_it - 1))" by (simp add: go_def)
      from nz bound have tk: "take last_it v = take (last_it - 1) v @ [v ! (last_it - 1)]"
        by (intro take_pred_snoc) simp_all
      from that have mem: "x \<in> set (take (last_it - 1) v) \<or> x = v ! (last_it - 1)"
        unfolding tk by auto
      from swo have irr: "\<not> cmp (v ! (last_it - 1)) (v ! (last_it - 1))"
        by (rule strict_weak_order_irrefl)
      from srt0 have "\<forall>y\<in>set (take (last_it - 1) v). \<not> cmp (v ! (last_it - 1)) y"
        unfolding tk by (simp add: sorted_wrt_append)
      with mem irr have "\<not> cmp (v ! (last_it - 1)) x" by blast
      with swo nc show ?thesis by (rule strict_weak_order_negtrans)
    qed
    with False bound srt0 show ?thesis unfolding step
      by (simp add: t sorted_wrt_append)
  next
    case True
    then have pos: "0 < last_it" and c: "cmp val (v ! (last_it - 1))" by (simp_all add: go_def)
    let ?v1 = "v[last_it := v ! (last_it - 1)]"
    let ?r = "unguarded_linear_insert_loop cmp val (last_it - 1) ?v1"
    from pos bound have tk: "take last_it v = take (last_it - 1) v @ [v ! (last_it - 1)]"
      by (intro take_pred_snoc) simp_all
    from srt0 have s1: "sorted_wrt (\<lambda>a b. \<not> cmp b a) (take (last_it - 1) v)"
      unfolding tk by (simp add: sorted_wrt_append)
    from pos bound s1 swo have ih: "length ?r = length ?v1 \<and>
        sorted_wrt (\<lambda>a b. \<not> cmp b a) (take (Suc (last_it - 1)) ?r) \<and>
        mset (take (Suc (last_it - 1)) ?r) = add_mset val (mset (take (last_it - 1) ?v1)) \<and>
        drop (Suc (last_it - 1)) ?r = drop (Suc (last_it - 1)) ?v1"
      using c by (intro "1.IH") simp_all
    from pos have sp: "Suc (last_it - 1) = last_it" by simp
    from ih have len: "length ?r = length v"
      and srt: "sorted_wrt (\<lambda>a b. \<not> cmp b a) (take last_it ?r)"
      and ms: "mset (take last_it ?r) = add_mset val (mset (take (last_it - 1) v))"
      and dr: "drop last_it ?r = drop last_it ?v1"
      unfolding sp by simp_all
    from bound have d1: "drop last_it ?v1 = v ! (last_it - 1) # drop (Suc last_it) v"
      by (simp add: drop_update_cancel Cons_nth_drop_Suc[symmetric])
    from dr d1 len bound have nth: "?r ! last_it = v ! (last_it - 1)"
      by (metis Cons_nth_drop_Suc list.inject)
    from dr d1 have d2: "drop (Suc last_it) ?r = drop (Suc last_it) v"
      by (metis drop_Suc tl_drop list.sel(3))
    from len bound nth have t2: "take (Suc last_it) ?r = take last_it ?r @ [v ! (last_it - 1)]"
      by (simp add: take_Suc_conv_app_nth)
    from ms have st: "set (take last_it ?r) = insert val (set (take (last_it - 1) v))"
      by (metis set_mset_add_mset_insert set_mset_mset)
    have "\<not> cmp (v ! (last_it - 1)) x" if "x \<in> set (take last_it ?r)" for x
    proof (cases "x = val")
      case True
      with swo c show ?thesis by (auto dest: strict_weak_order_asym)
    next
      case False
      with that st have "x \<in> set (take (last_it - 1) v)" by simp
      with srt0 show ?thesis unfolding tk by (simp add: sorted_wrt_append)
    qed
    with srt have s2: "sorted_wrt (\<lambda>a b. \<not> cmp b a) (take (Suc last_it) ?r)"
      unfolding t2 by (simp add: sorted_wrt_append)
    have m2: "mset (take (Suc last_it) ?r) = add_mset val (mset (take last_it v))"
      unfolding t2 tk using ms by simp
    from True len s2 m2 d2 show ?thesis unfolding step by simp
  qed
qed

lemma unguarded_linear_insert_sorted:
  assumes "strict_weak_order cmp" "i < length v" "sorted_wrt (\<lambda>a b. \<not> cmp b a) (take i v)"
  shows "length (unguarded_linear_insert cmp i v) = length v \<and>
         sorted_wrt (\<lambda>a b. \<not> cmp b a) (take (Suc i) (unguarded_linear_insert cmp i v)) \<and>
         mset (unguarded_linear_insert cmp i v) = mset v"
proof -
  let ?r = "unguarded_linear_insert_loop cmp (v ! i) i v"
  from unguarded_linear_insert_loop_sorted[OF assms, of "v ! i"]
  have l: "length ?r = length v" and s: "sorted_wrt (\<lambda>a b. \<not> cmp b a) (take (Suc i) ?r)"
    and m: "mset (take (Suc i) ?r) = add_mset (v ! i) (mset (take i v))"
    and d: "drop (Suc i) ?r = drop (Suc i) v" by simp_all
  have "mset ?r = mset (take (Suc i) ?r) + mset (drop (Suc i) ?r)"
    by (metis append_take_drop_id mset_append)
  also have "\<dots> = add_mset (v ! i) (mset (take i v)) + mset (drop (Suc i) v)"
    using m d by simp
  also have "\<dots> = mset (take i v @ v ! i # drop (Suc i) v)" by simp
  also have "\<dots> = mset v" using assms(2) by (simp add: id_take_nth_drop[symmetric])
  finally have "mset ?r = mset v" .
  with l s show ?thesis by (simp add: unguarded_linear_insert_def)
qed

lemma move_backward_front:
  "i < length v \<Longrightarrow> (move_backward 0 i (Suc i) v)[0 := x] = x # take i v @ drop (Suc i) v"
  by (cases v) (simp_all add: move_backward_def)

lemma insertion_sort_step_sorted:
  assumes swo: "strict_weak_order cmp" and i: "0 < i" "i < length v"
    and srt: "sorted_wrt (\<lambda>a b. \<not> cmp b a) (take i v)"
  defines "v1 \<equiv> (if cmp (v ! i) (v ! 0) then (move_backward 0 i (i + 1) v)[0 := v ! i]
                   else unguarded_linear_insert cmp i v)"
  shows "length v1 = length v \<and> mset v1 = mset v \<and>
         sorted_wrt (\<lambda>a b. \<not> cmp b a) (take (Suc i) v1)"
proof (cases "cmp (v ! i) (v ! 0)")
  case False
  with unguarded_linear_insert_sorted[OF swo i(2) srt] show ?thesis by (simp add: v1_def)
next
  case True
  with i have v1: "v1 = v ! i # take i v @ drop (Suc i) v"
    by (simp add: v1_def move_backward_front)
  from i have "mset v = mset (take i v @ v ! i # drop (Suc i) v)"
    by (simp add: id_take_nth_drop[symmetric])
  then have m: "mset v1 = mset v" unfolding v1 by simp
  from i have l: "length v1 = length v" unfolding v1 by simp
  have "\<not> cmp x (v ! i)" if "x \<in> set (take i v)" for x
  proof
    assume "cmp x (v ! i)"
    with swo True have c: "cmp x (v ! 0)" by (blast intro: strict_weak_order_trans)
    from i have tk: "take i v = v ! 0 # take (i - 1) (drop 1 v)"
      by (cases v; cases i) simp_all
    from that srt have "x = v ! 0 \<or> \<not> cmp x (v ! 0)" unfolding tk by auto
    with c swo show False by (auto dest: strict_weak_order_irrefl)
  qed
  with srt i have "sorted_wrt (\<lambda>a b. \<not> cmp b a) (take (Suc i) v1)"
    unfolding v1 by simp
  with l m show ?thesis by simp
qed

lemma insertion_sort_loop_sorted:
  "strict_weak_order cmp \<Longrightarrow> first = 0 \<Longrightarrow> 0 < i \<Longrightarrow> i \<le> last_it \<Longrightarrow> last_it \<le> length v \<Longrightarrow>
   sorted_wrt (\<lambda>a b. \<not> cmp b a) (take i v) \<Longrightarrow>
   length (insertion_sort_loop cmp first last_it i v) = length v \<and>
   mset (insertion_sort_loop cmp first last_it i v) = mset v \<and>
   sorted_wrt (\<lambda>a b. \<not> cmp b a) (take last_it (insertion_sort_loop cmp first last_it i v))"
proof (induction cmp first last_it i v rule: insertion_sort_loop.induct)
  case (1 cmp first last_it i v)
  show ?case
  proof (cases "i < last_it")
    case False
    with "1.prems" show ?thesis by (subst (1 2 3) insertion_sort_loop.simps) simp
  next
    case True
    define v1 where "v1 = (if cmp (v ! i) (v ! first) then (move_backward first i (i + 1) v)[first := v ! i]
                   else unguarded_linear_insert cmp i v)"
    have step: "insertion_sort_loop cmp first last_it i v = insertion_sort_loop cmp first last_it (i + 1) v1"
      using True unfolding v1_def by (subst insertion_sort_loop.simps) simp
    from True "1.prems" have s: "length v1 = length v \<and> mset v1 = mset v \<and>
         sorted_wrt (\<lambda>a b. \<not> cmp b a) (take (Suc i) v1)"
      unfolding v1_def by (simp only: \<open>first = 0\<close>) (intro insertion_sort_step_sorted, simp_all)
    with True "1.prems" have "length (insertion_sort_loop cmp first last_it (i + 1) v1) = length v1 \<and>
        mset (insertion_sort_loop cmp first last_it (i + 1) v1) = mset v1 \<and>
        sorted_wrt (\<lambda>a b. \<not> cmp b a) (take last_it (insertion_sort_loop cmp first last_it (i + 1) v1))"
      unfolding v1_def by (intro "1.IH") simp_all
    with s show ?thesis unfolding step by simp
  qed
qed

lemma insertion_sort_sorted:
  assumes "strict_weak_order cmp" "last_it \<le> length v"
  shows "length (insertion_sort cmp 0 last_it v) = length v \<and>
         mset (insertion_sort cmp 0 last_it v) = mset v \<and>
         sorted_wrt (\<lambda>a b. \<not> cmp b a) (take last_it (insertion_sort cmp 0 last_it v))"
proof (cases "last_it = 0")
  case True
  then show ?thesis by (simp add: insertion_sort_def)
next
  case False
  with assms have "sorted_wrt (\<lambda>a b. \<not> cmp b a) (take (0 + 1) v)"
    by (cases v) simp_all
  with assms False have "length (insertion_sort_loop cmp 0 last_it (0 + 1) v) = length v \<and>
      mset (insertion_sort_loop cmp 0 last_it (0 + 1) v) = mset v \<and>
      sorted_wrt (\<lambda>a b. \<not> cmp b a) (take last_it (insertion_sort_loop cmp 0 last_it (0 + 1) v))"
    by (intro insertion_sort_loop_sorted) simp_all
  with False show ?thesis by (simp add: insertion_sort_def)
qed

lemma unguarded_insertion_sort_sorted:
  "strict_weak_order cmp \<Longrightarrow> first \<le> last_it \<Longrightarrow> last_it \<le> length v \<Longrightarrow>
   sorted_wrt (\<lambda>a b. \<not> cmp b a) (take first v) \<Longrightarrow>
   length (unguarded_insertion_sort cmp first last_it v) = length v \<and>
   mset (unguarded_insertion_sort cmp first last_it v) = mset v \<and>
   sorted_wrt (\<lambda>a b. \<not> cmp b a) (take last_it (unguarded_insertion_sort cmp first last_it v))"
proof (induction cmp first last_it v rule: unguarded_insertion_sort.induct)
  case (1 cmp first last_it v)
  show ?case
  proof (cases "first < last_it")
    case False
    with "1.prems" show ?thesis by (subst (1 2 3) unguarded_insertion_sort.simps) simp
  next
    case True
    let ?v1 = "unguarded_linear_insert cmp first v"
    from True "1.prems" have s: "length ?v1 = length v \<and>
        sorted_wrt (\<lambda>a b. \<not> cmp b a) (take (Suc first) ?v1) \<and> mset ?v1 = mset v"
      by (intro unguarded_linear_insert_sorted) simp_all
    with True "1.prems" have "length (unguarded_insertion_sort cmp (first + 1) last_it ?v1) = length ?v1 \<and>
        mset (unguarded_insertion_sort cmp (first + 1) last_it ?v1) = mset ?v1 \<and>
        sorted_wrt (\<lambda>a b. \<not> cmp b a) (take last_it (unguarded_insertion_sort cmp (first + 1) last_it ?v1))"
      by (intro "1.IH") simp_all
    with s True show ?thesis by (subst (1 2 3) unguarded_insertion_sort.simps) simp
  qed
qed

lemma final_insertion_sort_sorted:
  assumes "strict_weak_order cmp"
  shows "mset (final_insertion_sort cmp 0 (length v) v) = mset v \<and>
         sorted_wrt (\<lambda>a b. \<not> cmp b a) (final_insertion_sort cmp 0 (length v) v)"
proof (cases "length v > 16")
  case False
  let ?r = "insertion_sort cmp 0 (length v) v"
  from insertion_sort_sorted[OF assms, of "length v" v]
  have l: "length ?r = length v" and m: "mset ?r = mset v"
    and s: "sorted_wrt (\<lambda>a b. \<not> cmp b a) (take (length v) ?r)" by blast+
  from l have "take (length v) ?r = ?r" by simp
  with s m False show ?thesis by (simp add: final_insertion_sort_def)
next
  case True
  let ?v1 = "insertion_sort cmp 0 16 v"
  from True assms have 1: "length ?v1 = length v \<and> mset ?v1 = mset v \<and>
      sorted_wrt (\<lambda>a b. \<not> cmp b a) (take 16 ?v1)"
    by (intro insertion_sort_sorted) simp_all
  let ?v2 = "unguarded_insertion_sort cmp 16 (length v) ?v1"
  from True assms 1 have 2: "length ?v2 = length ?v1 \<and> mset ?v2 = mset ?v1 \<and>
      sorted_wrt (\<lambda>a b. \<not> cmp b a) (take (length v) ?v2)"
    by (intro unguarded_insertion_sort_sorted) simp_all
  then have l: "length ?v2 = length ?v1" and m: "mset ?v2 = mset ?v1"
    and s: "sorted_wrt (\<lambda>a b. \<not> cmp b a) (take (length v) ?v2)" by blast+
  from l 1 have "take (length v) ?v2 = ?v2" by simp
  with s m 1 True show ?thesis by (simp add: final_insertion_sort_def)
qed

lemma libstdcxx_sort_sorted:
  assumes "strict_weak_order cmp"
  shows "mset (libstdcxx_sort cmp v) = mset v \<and>
         sorted_wrt (\<lambda>a b. \<not> cmp b a) (libstdcxx_sort cmp v)"
proof (cases "v = []")
  case True
  then show ?thesis by (simp add: libstdcxx_sort_def)
next
  case False
  let ?v1 = "introsort_loop cmp 0 (length v) (lg (length v) * 2) v"
  have 1: "length ?v1 = length v \<and> mset ?v1 = mset v"
    by (intro introsort_loop_perm) simp
  from final_insertion_sort_sorted[OF assms, of ?v1] 1
  have "mset (final_insertion_sort cmp 0 (length v) ?v1) = mset v \<and>
      sorted_wrt (\<lambda>a b. \<not> cmp b a) (final_insertion_sort cmp 0 (length v) ?v1)"
    by simp
  with False show ?thesis by (simp add: libstdcxx_sort_def Let_def)
qed

lemma std_sort_guarantee_libstdcxx: "std_sort_guarantee libstdcxx_sort"
  by (simp add: std_sort_guarantee_def libstdcxx_sort_sorted)

lemma sorted_wrt_subseq:
  "subseq xs ys \<Longrightarrow> sorted_wrt P ys \<Longrightarrow> sorted_wrt P xs"
proof (induction rule: list_emb.induct)
  case (list_emb_Nil ys)
  then show ?case by simp
next
  case (list_emb_Cons xs ys y)
  then show ?case by simp
next
  case (list_emb_Cons2 x y xs ys)
  then have "set xs \<subseteq> set ys" by (auto dest: list_emb_set)
  with list_emb_Cons2 show ?case by auto
qed

subsection \<open>Maps in key order\<close>


lemma set_map_assign_subset: "set (map_assign k v m) \<subseteq> insert (k, v) (set m)"
  by (induction m) (auto split: if_splits)

lemma map_fst_map_assign: "set (map fst (map_assign k v m)) = insert k (set (map fst m))"
  by (induction k v m rule: map_assign.induct) auto

lemma keys_map_assign: "fst ` set (map_assign k v m) = insert k (fst ` set m)"
  using map_fst_map_assign[of k v m] by simp

lemma in_map_assignD: "pair \<in> set (map_assign k v m) \<Longrightarrow> pair = (k, v) \<or> pair \<in> set m"
  using set_map_assign_subset[of k v m] by auto

lemma map_assign_fresh:
  "k \<notin> fst ` set m \<Longrightarrow> mset (map_assign k v m) = add_mset (k, v) (mset m)"
  by (induction m) auto

lemma map_assign_fresh_snd:
  "k \<notin> fst ` set m \<Longrightarrow> mset (map snd (map_assign k v m)) = add_mset v (mset (map snd m))"
  by (induction k v m rule: map_assign.induct) auto




subsection \<open>Loops with an early exit\<close>




subsection \<open>The error message\<close>

lemma joined_drop:
  assumes "i < length xs"
  shows "joined sep (drop i xs) =
           xs ! i @ (if i = length xs - 1 then [] else sep) @ joined sep (drop (Suc i) xs)"
proof (cases "i = length xs - 1")
  case True
  with assms have "drop (Suc i) xs = []" by simp
  with assms True show ?thesis by (simp add: Cons_nth_drop_Suc[symmetric])
next
  case False
  with assms have "Suc i < length xs" by simp
  then have "drop (Suc i) xs = xs ! Suc i # drop (Suc (Suc i)) xs"
    by (simp add: Cons_nth_drop_Suc)
  moreover from assms have "drop i xs = xs ! i # drop (Suc i) xs"
    by (simp add: Cons_nth_drop_Suc)
  ultimately show ?thesis using False by simp
qed

lemma error_msg_loop_joined:
  "i \<le> length failed \<Longrightarrow>
   error_msg_loop failed i msg = msg @ joined '', '' (drop i failed)"
proof (induction failed i msg rule: error_msg_loop.induct)
  case (1 failed i error_msg)
  show ?case
  proof (cases "i < length failed")
    case False
    with "1.prems" have "i = length failed" by simp
    then show ?thesis by (simp add: error_msg_loop.simps[of failed "length failed"])
  next
    case True
    have step: "error_msg_loop failed i error_msg =
        error_msg_loop failed (i + 1)
          (error_msg @ (failed ! i @ (if i = length failed - 1 then [] else '', '')))"
      using True by (subst error_msg_loop.simps) simp
    have ih: "error_msg_loop failed (i + 1)
          (error_msg @ (failed ! i @ (if i = length failed - 1 then [] else '', ''))) =
        (error_msg @ (failed ! i @ (if i = length failed - 1 then [] else '', ''))) @
          joined '', '' (drop (i + 1) failed)"
      using "1.IH"[OF True] True by simp
    show ?thesis
      unfolding step ih joined_drop[OF True, of "'', ''"] by simp
  qed
qed

section \<open>The spot finder returns checked candidates\<close>








section \<open>Steps of the orchestrator\<close>

lemma commit_output [simp]: "st_output (commit_placement st item cid pos) = st_output st"
  by (simp add: commit_placement_def)

lemma commit_fields [simp]:
  "processed_item_ids (commit_placement st item cid pos) = insert (i_itemId item) (processed_item_ids st)"
  "items_requiring_placement_pass_2 (commit_placement st item cid pos) = items_requiring_placement_pass_2 st"
  "final_placements_map (commit_placement st item cid pos) =
     map_assign (i_itemId item)
       \<lparr>r_itemId = i_itemId item, r_containerId = cid, r_position = pos\<rparr> (final_placements_map st)"
  by (simp_all add: commit_placement_def)

lemma fail_fields [simp]:
  "processed_item_ids (fail_item st item) = insert (i_itemId item) (processed_item_ids st)"
  "items_requiring_placement_pass_2 (fail_item st item) = items_requiring_placement_pass_2 st"
  "final_placements_map (fail_item st item) = final_placements_map st"
  "simulation_placements (fail_item st item) = simulation_placements st"
  "failedItemIds (st_output (fail_item st item)) = failedItemIds (st_output st) @ [i_itemId item]"
  by (simp_all add: fail_item_def)

lemma phase1_containers_SomeD:
  "phase1_containers cm item hp z cids st = Some st' \<Longrightarrow>
   \<exists>cid \<in> set cids. \<exists>spot.
     find_spot_in_container item (map_index default_container cm cid)
       (map_index [] (simulation_placements st) cid) hp = Some spot \<and>
     st' = commit_placement st item cid (fst spot)"
proof (induction cids)
  case Nil
  then show ?case by simp
next
  case (Cons cid cids)
  show ?case
  proof (cases "c_zone (map_index default_container cm cid) = z")
    case False
    with Cons show ?thesis by (simp add: Let_def)
  next
    case True
    show ?thesis
    proof (cases "find_spot_in_container item (map_index default_container cm cid)
                    (map_index [] (simulation_placements st) cid) hp")
      case None
      with True Cons show ?thesis by (simp add: Let_def)
    next
      case (Some spot)
      with True Cons.prems have "st' = commit_placement st item cid (fst spot)"
        by (simp add: Let_def split: prod.splits)
      with Some show ?thesis by (intro bexI[of _ cid] exI[of _ spot]) simp_all
    qed
  qed
qed

lemma phase3_containers_SomeD:
  "phase3_containers cm item hp cids st = Some st' \<Longrightarrow>
   \<exists>cid \<in> set cids. \<exists>spot.
     find_spot_in_container item (map_index default_container cm cid)
       (map_index [] (simulation_placements st) cid) hp = Some spot \<and>
     st' = commit_placement st item cid (fst spot)"
proof (induction cids)
  case Nil
  then show ?case by simp
next
  case (Cons cid cids)
  show ?case
  proof (cases "find_spot_in_container item (map_index default_container cm cid)
                  (map_index [] (simulation_placements st) cid) hp")
    case None
    with Cons show ?thesis by (simp add: Let_def)
  next
    case (Some spot)
    with Cons.prems have "st' = commit_placement st item cid (fst spot)"
      by (simp add: Let_def split: prod.splits)
    with Some show ?thesis by (intro bexI[of _ cid] exI[of _ spot]) simp_all
  qed
qed

lemma phase1_item_cases:
  obtains (skip) "i_itemId item \<in> processed_item_ids st" "phase1_item cm cids st item = st"
  | (placed) cid pos ori where "i_itemId item \<notin> processed_item_ids st" "cid \<in> set cids"
      "find_spot_in_container item (map_index default_container cm cid)
         (map_index [] (simulation_placements st) cid) (i_priority item \<ge> 75) = Some (pos, ori)"
      "phase1_item cm cids st item = commit_placement st item cid pos"
  | (queued) "i_itemId item \<notin> processed_item_ids st"
      "phase1_item cm cids st item =
         st\<lparr>items_requiring_placement_pass_2 := items_requiring_placement_pass_2 st @ [item]\<rparr>"
proof (cases "i_itemId item \<in> processed_item_ids st")
  case True
  then show ?thesis by (intro skip) (simp_all add: phase1_item_def)
next
  case np: False
  show ?thesis
  proof (cases "i_preferredZone item")
    case None
    with np show ?thesis by (intro queued) (simp_all add: phase1_item_def)
  next
    case (Some z)
    show ?thesis
    proof (cases "phase1_containers cm item (i_priority item \<ge> 75) z cids st")
      case None
      with np Some show ?thesis by (intro queued) (simp_all add: phase1_item_def)
    next
      case s: (Some st')
      from phase1_containers_SomeD[OF s] obtain cid pos ori where
        "cid \<in> set cids"
        "find_spot_in_container item (map_index default_container cm cid)
           (map_index [] (simulation_placements st) cid) (i_priority item \<ge> 75) = Some (pos, ori)"
        "st' = commit_placement st item cid pos" by (metis fst_conv surj_pair)
      with np Some s show ?thesis by (intro placed[of cid pos ori]) (simp_all add: phase1_item_def)
    qed
  qed
qed

lemma phase3_item_cases:
  obtains (skip) "i_itemId item \<in> processed_item_ids st" "phase3_item cm cids st item = st"
  | (placed) cid pos ori where "i_itemId item \<notin> processed_item_ids st" "cid \<in> set cids"
      "find_spot_in_container item (map_index default_container cm cid)
         (map_index [] (simulation_placements st) cid) (i_priority item \<ge> 75) = Some (pos, ori)"
      "phase3_item cm cids st item = commit_placement st item cid pos"
  | (failed) "i_itemId item \<notin> processed_item_ids st"
      "phase3_item cm cids st item = fail_item st item"
proof (cases "i_itemId item \<in> processed_item_ids st")
  case True
  then show ?thesis by (intro skip) (simp_all add: phase3_item_def)
next
  case np: False
  show ?thesis
  proof (cases "phase3_containers cm item (i_priority item \<ge> 75) cids st")
    case None
    with np show ?thesis by (intro failed) (simp_all add: phase3_item_def)
  next
    case s: (Some st')
    from phase3_containers_SomeD[OF s] obtain cid pos ori where
      "cid \<in> set cids"
      "find_spot_in_container item (map_index default_container cm cid)
         (map_index [] (simulation_placements st) cid) (i_priority item \<ge> 75) = Some (pos, ori)"
      "st' = commit_placement st item cid pos" by (metis fst_conv surj_pair)
    with np s show ?thesis by (intro placed[of cid pos ori]) (simp_all add: phase3_item_def)
  qed
qed

lemma phase2_fields [simp]:
  "fst (phase2 st) = items_requiring_placement_pass_2 st"
  "processed_item_ids (snd (phase2 st)) = processed_item_ids st"
  "final_placements_map (snd (phase2 st)) = final_placements_map st"
  "simulation_placements (snd (phase2 st)) = simulation_placements st"
  by (simp_all add: phase2_def)

lemma phase2_output [simp]: "st_output (snd (phase2 st)) = st_output st"
  by (simp add: phase2_def)

lemma phase4_fields:
  "failedItemIds (phase4 st) = failedItemIds (st_output st)"
  "success (phase4 st) = success (st_output st)"
  "rearrangements (phase4 st) = rearrangements (st_output st)"
  "placements (phase4 st) = collect_placements (final_placements_map st) (failedItemIds (st_output st))"
  "error (phase4 st) = (if failedItemIds (st_output st) = [] then error (st_output st)
      else Some (error_msg_loop (failedItemIds (st_output st)) 0 ''Placement incomplete. Failed items: ''))"
  by (simp_all add: phase4_def Let_def)

lemma suggest_unfold:
  "suggest_placements_cpp s items cs m =
     phase4 (phase3 (load_containers_map cs []) (map c_containerId cs)
       (fst (phase2 (phase1 (load_containers_map cs []) (map c_containerId cs)
         (s higher_priority_first items) (initial_state m))))
       (snd (phase2 (phase1 (load_containers_map cs []) (map c_containerId cs)
         (s higher_priority_first items) (initial_state m)))))"
  by (simp add: suggest_placements_cpp_def phase2_def Let_def)

lemma is_failed_iff: "is_failed k failed \<longleftrightarrow> k \<in> set failed"
  by (induction failed) auto

lemma collect_placements_filter:
  "collect_placements fm failed = map snd (filter (\<lambda>pair. fst pair \<notin> set failed) fm)"
  by (induction fm) (auto simp: is_failed_iff)

lemma collect_placements_ids:
  "\<forall>pair \<in> set fm. r_itemId (snd pair) = fst pair \<Longrightarrow>
   map r_itemId (collect_placements fm failed) = filter (\<lambda>k. k \<notin> set failed) (map fst fm)"
  by (induction fm) (auto simp: is_failed_iff)

subsection \<open>The output record\<close>

lemma phase1_item_output [simp]: "st_output (phase1_item cm cids st item) = st_output st"
  by (rule phase1_item_cases[where item=item and st=st and cm=cm and cids=cids]) simp_all

lemma phase1_output [simp]: "st_output (phase1 cm cids items st) = st_output st"
  by (induction items arbitrary: st) auto

lemma phase3_item_out_inv:
  "out_inv (st_output st) \<Longrightarrow> out_inv (st_output (phase3_item cm cids st item))"
  by (rule phase3_item_cases[where item=item and st=st and cm=cm and cids=cids])
     (auto simp: out_inv_def fail_item_def)

lemma phase3_out_inv:
  "out_inv (st_output st) \<Longrightarrow> out_inv (st_output (phase3 cm cids items st))"
  by (induction items arbitrary: st) (auto intro: phase3_item_out_inv)

lemma final_state_out_inv:
  "out_inv (st_output (phase3 cm cids (fst (phase2 (phase1 cm cids xs (initial_state m))))
      (snd (phase2 (phase1 cm cids xs (initial_state m))))))"
  by (rule phase3_out_inv) (simp add: out_inv_def initial_state_def initial_output_def)

lemma phase3_item_failed_subset:
  "set (failedItemIds (st_output (phase3_item cm cids st item)))
     \<subseteq> insert (i_itemId item) (set (failedItemIds (st_output st)))"
  by (rule phase3_item_cases[where item=item and st=st and cm=cm and cids=cids]) auto

lemma phase3_failed_subset:
  "set (failedItemIds (st_output (phase3 cm cids items st)))
     \<subseteq> set (failedItemIds (st_output st)) \<union> i_itemId ` set items"
proof (induction items arbitrary: st)
  case Nil
  then show ?case by simp
next
  case (Cons x xs)
  from Cons.IH[of "phase3_item cm cids st x"] phase3_item_failed_subset[of cm cids st x]
  show ?case by auto
qed

subsection \<open>Processed ids\<close>

lemma ids_inv_commit: "ids_inv st \<Longrightarrow> ids_inv (commit_placement st item cid pos)"
  by (auto simp: ids_inv_def keys_map_assign dest!: in_map_assignD)

lemma ids_inv_fail: "ids_inv st \<Longrightarrow> ids_inv (fail_item st item)"
  by (auto simp: ids_inv_def)

lemma ids_inv_queue:
  "ids_inv st \<Longrightarrow> ids_inv (st\<lparr>items_requiring_placement_pass_2 := xs\<rparr>)"
  by (simp add: ids_inv_def)

lemma phase1_item_ids_inv: "ids_inv st \<Longrightarrow> ids_inv (phase1_item cm cids st item)"
  by (rule phase1_item_cases[where item=item and st=st and cm=cm and cids=cids]) (simp_all add: ids_inv_commit ids_inv_queue)

lemma phase1_ids_inv: "ids_inv st \<Longrightarrow> ids_inv (phase1 cm cids items st)"
  by (induction items arbitrary: st) (auto intro: phase1_item_ids_inv)

lemma phase3_item_ids_inv: "ids_inv st \<Longrightarrow> ids_inv (phase3_item cm cids st item)"
  by (rule phase3_item_cases[where item=item and st=st and cm=cm and cids=cids]) (simp_all add: ids_inv_commit ids_inv_fail)

lemma phase3_ids_inv: "ids_inv st \<Longrightarrow> ids_inv (phase3 cm cids items st)"
  by (induction items arbitrary: st) (auto intro: phase3_item_ids_inv)

lemma ids_inv_phase2: "ids_inv st \<Longrightarrow> ids_inv (snd (phase2 st))"
  by (simp add: ids_inv_def)

lemma phase1_item_covers:
  "i_itemId item \<in> processed_item_ids (phase1_item cm cids st item) \<or>
   item \<in> set (items_requiring_placement_pass_2 (phase1_item cm cids st item))"
  by (rule phase1_item_cases[where item=item and st=st and cm=cm and cids=cids]) simp_all

lemma phase1_item_mono:
  "processed_item_ids st \<subseteq> processed_item_ids (phase1_item cm cids st item) \<and>
   set (items_requiring_placement_pass_2 st)
     \<subseteq> set (items_requiring_placement_pass_2 (phase1_item cm cids st item))"
  by (rule phase1_item_cases[where item=item and st=st and cm=cm and cids=cids]) auto

lemma phase1_mono:
  "processed_item_ids st \<subseteq> processed_item_ids (phase1 cm cids items st) \<and>
   set (items_requiring_placement_pass_2 st)
     \<subseteq> set (items_requiring_placement_pass_2 (phase1 cm cids items st))"
proof (induction items arbitrary: st)
  case Nil
  then show ?case by simp
next
  case (Cons x xs)
  from phase1_item_mono[of st cm cids x] Cons.IH[of "phase1_item cm cids st x"]
  show ?case by auto
qed

lemma phase1_covers:
  "item \<in> set items \<Longrightarrow>
   i_itemId item \<in> processed_item_ids (phase1 cm cids items st) \<or>
   item \<in> set (items_requiring_placement_pass_2 (phase1 cm cids items st))"
proof (induction items arbitrary: st)
  case Nil
  then show ?case by simp
next
  case (Cons x xs)
  show ?case
  proof (cases "item = x")
    case True
    from phase1_item_covers[of x cm cids st] phase1_mono[of "phase1_item cm cids st x" cm cids xs]
    show ?thesis unfolding True by auto
  next
    case False
    with Cons.prems have "item \<in> set xs" by simp
    from Cons.IH[OF this] show ?thesis by simp
  qed
qed

lemma phase3_item_covers:
  "i_itemId item \<in> processed_item_ids (phase3_item cm cids st item)"
  by (rule phase3_item_cases[where item=item and st=st and cm=cm and cids=cids]) simp_all

lemma phase3_item_mono:
  "processed_item_ids st \<subseteq> processed_item_ids (phase3_item cm cids st item)"
  by (rule phase3_item_cases[where item=item and st=st and cm=cm and cids=cids]) auto

lemma phase3_mono:
  "processed_item_ids st \<subseteq> processed_item_ids (phase3 cm cids items st)"
proof (induction items arbitrary: st)
  case Nil
  then show ?case by simp
next
  case (Cons x xs)
  from phase3_item_mono[of st cm cids x] Cons.IH[of "phase3_item cm cids st x"]
  show ?case by auto
qed

lemma phase3_covers:
  "item \<in> set items \<Longrightarrow> i_itemId item \<in> processed_item_ids (phase3 cm cids items st)"
proof (induction items arbitrary: st)
  case Nil
  then show ?case by simp
next
  case (Cons x xs)
  show ?case
  proof (cases "item = x")
    case True
    from phase3_item_covers[of x cm cids st] phase3_mono[of "phase3_item cm cids st x" cm cids xs]
    show ?thesis unfolding True by auto
  next
    case False
    with Cons.prems have "item \<in> set xs" by simp
    from Cons.IH[OF this] show ?thesis by simp
  qed
qed

lemma seed_container_itemId:
  "\<forall>pair \<in> set fm. r_itemId (snd pair) = fst pair \<Longrightarrow>
   \<forall>pair \<in> set (seed_container cid ps fm). r_itemId (snd pair) = fst pair"
proof (induction ps arbitrary: fm)
  case Nil
  then show ?case by simp
next
  case (Cons p ps)
  show ?case
    unfolding seed_container.simps
  proof (rule Cons.IH)
    show "\<forall>pair\<in>set (map_assign (p_itemId p)
             \<lparr>r_itemId = p_itemId p, r_containerId = cid, r_position = p_position p\<rparr> fm).
            r_itemId (snd pair) = fst pair"
      using Cons.prems by (auto dest!: in_map_assignD)
  qed
qed

lemma seed_final_itemId:
  "\<forall>pair \<in> set fm. r_itemId (snd pair) = fst pair \<Longrightarrow>
   \<forall>pair \<in> set (seed_final m fm). r_itemId (snd pair) = fst pair"
  by (induction m arbitrary: fm) (auto dest: seed_container_itemId simp del: seed_container.simps)

lemma ids_inv_initial: "ids_inv (initial_state m)"
  using seed_final_itemId[of "[]" m]
  by (simp add: ids_inv_def initial_state_def initial_output_def)

lemma final_state_ids_inv:
  "ids_inv (phase3 cm cids (fst (phase2 (phase1 cm cids xs (initial_state m))))
      (snd (phase2 (phase1 cm cids xs (initial_state m)))))"
  by (intro phase3_ids_inv ids_inv_phase2 phase1_ids_inv ids_inv_initial)

lemma final_state_covers:
  assumes "item \<in> set xs"
  shows "i_itemId item \<in> processed_item_ids
     (phase3 cm cids (fst (phase2 (phase1 cm cids xs (initial_state m))))
        (snd (phase2 (phase1 cm cids xs (initial_state m)))))"
proof -
  let ?st1 = "phase1 cm cids xs (initial_state m)"
  from phase1_covers[OF assms, of cm cids "initial_state m"]
  consider "i_itemId item \<in> processed_item_ids ?st1"
    | "item \<in> set (items_requiring_placement_pass_2 ?st1)" by blast
  then show ?thesis
  proof cases
    case 1
    with phase3_mono[of "snd (phase2 ?st1)" cm cids "fst (phase2 ?st1)"] show ?thesis by auto
  next
    case 2
    then show ?thesis by (intro phase3_covers) simp
  qed
qed

lemma placed_xor_failed:
  assumes inv: "ids_inv st" and p: "k \<in> processed_item_ids st"
  shows "(k \<in> r_itemId ` set (placements (phase4 st))) \<noteq> (k \<in> set (failedItemIds (phase4 st)))"
proof -
  define fm where "fm = final_placements_map st"
  define failed where "failed = failedItemIds (st_output st)"
  from inv have ids: "\<forall>pair \<in> set fm. r_itemId (snd pair) = fst pair"
    by (simp add: ids_inv_def fm_def)
  have "r_itemId ` set (collect_placements fm failed) = set (map r_itemId (collect_placements fm failed))"
    by simp
  also have "\<dots> = set (filter (\<lambda>k. k \<notin> set failed) (map fst fm))"
    by (simp only: collect_placements_ids[OF ids])
  also have "\<dots> = fst ` set fm - set failed" by auto
  finally have 1: "r_itemId ` set (collect_placements fm failed) = fst ` set fm - set failed" .
  from inv p have 2: "k \<in> fst ` set fm \<union> set failed"
    unfolding ids_inv_def fm_def failed_def by blast
  have 3: "placements (phase4 st) = collect_placements fm failed"
    "failedItemIds (phase4 st) = failed"
    by (simp_all add: phase4_fields fm_def failed_def)
  from 1 2 show ?thesis unfolding 3 by blast
qed

subsection \<open>The backlog of Phase 1\<close>

lemma phase1_item_backlog:
  "\<exists>zs. items_requiring_placement_pass_2 (phase1_item cm cids st item)
           = items_requiring_placement_pass_2 st @ zs \<and> subseq zs [item]"
  by (rule phase1_item_cases[where item=item and st=st and cm=cm and cids=cids]) auto

lemma phase1_backlog:
  "\<exists>zs. items_requiring_placement_pass_2 (phase1 cm cids items st)
           = items_requiring_placement_pass_2 st @ zs \<and> subseq zs items"
proof (induction items arbitrary: st)
  case Nil
  then show ?case by simp
next
  case (Cons x xs)
  from phase1_item_backlog[of cm cids st x] obtain zs1 where
    1: "items_requiring_placement_pass_2 (phase1_item cm cids st x)
          = items_requiring_placement_pass_2 st @ zs1" and s1: "subseq zs1 [x]" by blast
  from Cons.IH[of "phase1_item cm cids st x"] obtain zs2 where
    2: "items_requiring_placement_pass_2 (phase1 cm cids xs (phase1_item cm cids st x))
          = items_requiring_placement_pass_2 (phase1_item cm cids st x) @ zs2"
    and s2: "subseq zs2 xs" by blast
  from s1 s2 have "subseq (zs1 @ zs2) ([x] @ xs)" by (rule list_emb_append_mono)
  with 1 2 show ?case by (intro exI[of _ "zs1 @ zs2"]) simp
qed

lemma phase3_worklist_subseq:
  "subseq (phase3_worklist std_sort items containers m) (std_sort higher_priority_first items)"
  using phase1_backlog[of "load_containers_map containers []" "map c_containerId containers"
      "std_sort higher_priority_first items" "initial_state m"]
  by (auto simp: phase3_worklist_def initial_state_def)

lemma phase3_item_failed:
  "\<exists>zs. failedItemIds (st_output (phase3_item cm cids st item))
           = failedItemIds (st_output st) @ map i_itemId zs \<and> subseq zs [item]"
proof (rule phase3_item_cases[where item=item and st=st and cm=cm and cids=cids])
  assume "phase3_item cm cids st item = st"
  then show ?thesis by (intro exI[of _ "[]"]) simp
next
  fix cid pos
  assume "phase3_item cm cids st item = commit_placement st item cid pos"
  then show ?thesis by (intro exI[of _ "[]"]) simp
next
  assume "phase3_item cm cids st item = fail_item st item"
  then show ?thesis by (intro exI[of _ "[item]"]) simp
qed

lemma phase3_failed:
  "\<exists>zs. failedItemIds (st_output (phase3 cm cids items st))
           = failedItemIds (st_output st) @ map i_itemId zs \<and> subseq zs items"
proof (induction items arbitrary: st)
  case Nil
  then show ?case by simp
next
  case (Cons x xs)
  from phase3_item_failed[of cm cids st x] obtain zs1 where
    1: "failedItemIds (st_output (phase3_item cm cids st x))
          = failedItemIds (st_output st) @ map i_itemId zs1" and s1: "subseq zs1 [x]" by blast
  from Cons.IH[of "phase3_item cm cids st x"] obtain zs2 where
    2: "failedItemIds (st_output (phase3 cm cids xs (phase3_item cm cids st x)))
          = failedItemIds (st_output (phase3_item cm cids st x)) @ map i_itemId zs2"
    and s2: "subseq zs2 xs" by blast
  from s1 s2 have "subseq (zs1 @ zs2) ([x] @ xs)" by (rule list_emb_append_mono)
  with 1 2 show ?case by (intro exI[of _ "zs1 @ zs2"]) simp
qed

lemma failed_ids_in_worklist_order:
  "\<exists>failed. subseq failed (phase3_worklist std_sort items containers m) \<and>
            failedItemIds (suggest_placements_cpp std_sort items containers m) = map i_itemId failed"
proof -
  let ?cm = "load_containers_map containers []" and ?cids = "map c_containerId containers"
  let ?st1 = "phase1 ?cm ?cids (std_sort higher_priority_first items) (initial_state m)"
  from phase3_failed[of ?cm ?cids "fst (phase2 ?st1)" "snd (phase2 ?st1)"]
  obtain zs where
    1: "failedItemIds (st_output (phase3 ?cm ?cids (fst (phase2 ?st1)) (snd (phase2 ?st1))))
          = failedItemIds (st_output (snd (phase2 ?st1))) @ map i_itemId zs"
    and 2: "subseq zs (fst (phase2 ?st1))" by blast
  have "failedItemIds (st_output (snd (phase2 ?st1))) = []"
    by (simp add: initial_state_def initial_output_def)
  with 1 have "failedItemIds (suggest_placements_cpp std_sort items containers m) = map i_itemId zs"
    by (simp add: suggest_unfold phase4_fields)
  with 2 show ?thesis unfolding phase3_worklist_def by blast
qed

subsection \<open>Seeding from the live placements\<close>

lemma live_item_ids_simps [simp]:
  "live_item_ids [] = []"
  "live_item_ids (pair # m) = map p_itemId (snd pair) @ live_item_ids m"
  by (simp_all add: live_item_ids_def)

lemma live_results_simps [simp]:
  "live_results [] = []"
  "live_results (pair # m) =
     map (\<lambda>p. \<lparr>r_itemId = p_itemId p, r_containerId = fst pair, r_position = p_position p\<rparr>)
       (snd pair) @ live_results m"
  by (simp_all add: live_results_def)

lemma seed_container_mset:
  "distinct (map p_itemId ps) \<Longrightarrow> set (map p_itemId ps) \<inter> fst ` set fm = {} \<Longrightarrow>
   mset (map snd (seed_container cid ps fm)) =
     mset (map snd fm) + mset (map (\<lambda>p. \<lparr>r_itemId = p_itemId p, r_containerId = cid,
                                        r_position = p_position p\<rparr>) ps) \<and>
   fst ` set (seed_container cid ps fm) = fst ` set fm \<union> set (map p_itemId ps)"
proof (induction ps arbitrary: fm)
  case Nil
  then show ?case by simp
next
  case (Cons p ps)
  define v where "v = \<lparr>r_itemId = p_itemId p, r_containerId = cid, r_position = p_position p\<rparr>"
  from Cons.prems have fresh: "p_itemId p \<notin> fst ` set fm" by auto
  from Cons.prems have "distinct (map p_itemId ps)"
    and "set (map p_itemId ps) \<inter> fst ` set (map_assign (p_itemId p) v fm) = {}"
    by (auto simp: keys_map_assign)
  from Cons.IH[OF this] have
    "mset (map snd (seed_container cid ps (map_assign (p_itemId p) v fm))) =
       mset (map snd (map_assign (p_itemId p) v fm)) +
       mset (map (\<lambda>p. \<lparr>r_itemId = p_itemId p, r_containerId = cid,
                         r_position = p_position p\<rparr>) ps)"
    "fst ` set (seed_container cid ps (map_assign (p_itemId p) v fm)) =
       fst ` set (map_assign (p_itemId p) v fm) \<union> set (map p_itemId ps)"
    by blast+
  then show ?case
    unfolding seed_container.simps v_def[symmetric] map_assign_fresh_snd[OF fresh] keys_map_assign
    by (simp add: v_def)
qed

lemma seed_final_mset:
  "distinct (live_item_ids m) \<Longrightarrow> set (live_item_ids m) \<inter> fst ` set fm = {} \<Longrightarrow>
   mset (map snd (seed_final m fm)) = mset (map snd fm) + mset (live_results m) \<and>
   fst ` set (seed_final m fm) = fst ` set fm \<union> set (live_item_ids m)"
proof (induction m arbitrary: fm)
  case Nil
  then show ?case by simp
next
  case (Cons pair m)
  from Cons.prems(1) have d1: "distinct (map p_itemId (snd pair))"
    and d2: "distinct (live_item_ids m)"
    and d3: "set (map p_itemId (snd pair)) \<inter> set (live_item_ids m) = {}"
    by simp_all
  from Cons.prems(2) have i1: "set (map p_itemId (snd pair)) \<inter> fst ` set fm = {}"
    and i3: "set (live_item_ids m) \<inter> fst ` set fm = {}"
    by auto
  note sc = seed_container_mset[OF d1 i1, of "fst pair"]
  from d3 i3 sc have "set (live_item_ids m) \<inter> fst ` set (seed_container (fst pair) (snd pair) fm) = {}"
    by blast
  from Cons.IH[OF d2 this] sc show ?case
    by (simp add: Un_assoc)
qed

section \<open>The geometry of the simulation is kept\<close>





lemma sim_list_fail [simp]: "sim_list (fail_item st item) c = sim_list st c"
  by (simp add: sim_list_def)

lemma sim_list_queue [simp]:
  "sim_list (st\<lparr>items_requiring_placement_pass_2 := xs\<rparr>) c = sim_list st c"
  by (simp add: sim_list_def)

lemma sim_list_phase2 [simp]: "sim_list (snd (phase2 st)) c = sim_list st c"
  by (simp add: sim_list_def)












subsection \<open>The container map\<close>




subsection \<open>The initial state\<close>









subsection \<open>From the invariant to the output\<close>





section \<open>Runs on concrete inputs\<close>

lemmas spot_eval = find_spot_in_container_def orientations_def COORD_TOLERANCE_def depth_loop_def
  width_loop_def static_cast_int_def for_first.simps validate_candidate_def is_stable_def Let_def
  boxes_overlap_def std_set_insert_def mk_pos_def mk_coords_def

lemmas engine_eval = suggest_placements_cpp_def initial_state_def initial_output_def phase1_item_def
  phase2_def phase3_item_def phase4_def commit_placement_def fail_item_def map_index_def
  default_container_def error_msg_loop.simps

lemma scenario1_spot:
  "find_spot_in_container scenario1_item_A scenario1_container_C1 [] False
     = Some (mk_pos (mk_coords 0 7 0) (mk_coords 2 10 1), (2, 3, 1))"
  by (simp add: spot_eval scenario1_item_A_def scenario1_container_C1_def)

lemma scenario1_eval:
  "std_sort_contract std_sort \<Longrightarrow>
   suggest_placements_cpp std_sort [scenario1_item_A] [scenario1_container_C1] [] =
     \<lparr>success = True, error = None,
      placements = [\<lparr>r_itemId = ''A'', r_containerId = ''C1'',
                     r_position = mk_pos (mk_coords 0 7 0) (mk_coords 2 10 1)\<rparr>],
      rearrangements = [], failedItemIds = []\<rparr>"
  by (simp add: engine_eval std_sort_contract_single scenario1_spot[unfolded scenario1_item_A_def scenario1_container_C1_def]
       scenario1_item_A_def scenario1_container_C1_def)

lemma scenario4_spot:
  "find_spot_in_container scenario4_item_H scenario4_container_C1 [scenario4_placement_L] True
     = Some (mk_pos (mk_coords 0 0 1) (mk_coords 4 4 3), (4, 4, 2))"
  by (simp add: spot_eval scenario4_item_H_def scenario4_container_C1_def scenario4_placement_L_def)

lemma scenario4_eval:
  "std_sort_contract std_sort \<Longrightarrow>
   suggest_placements_cpp std_sort [scenario4_item_H] [scenario4_container_C1, scenario4_container_C2]
       [(''C1'', [scenario4_placement_L])] =
     \<lparr>success = True, error = None,
      placements = [\<lparr>r_itemId = ''H'', r_containerId = ''C1'',
                     r_position = mk_pos (mk_coords 0 0 1) (mk_coords 4 4 3)\<rparr>,
                    \<lparr>r_itemId = ''L'', r_containerId = ''C1'',
                     r_position = mk_pos (mk_coords 0 0 0) (mk_coords 4 4 1)\<rparr>],
      rearrangements = [], failedItemIds = []\<rparr>"
  by (simp add: engine_eval std_sort_contract_single scenario4_spot[unfolded scenario4_item_H_def scenario4_container_C1_def scenario4_placement_L_def]
       scenario4_item_H_def scenario4_container_C1_def scenario4_container_C2_def scenario4_placement_L_def)

lemma tie_eval_stable:
  "suggest_placements_cpp stable_sort_by_priority [tie_item_A, tie_item_B] [unit_container] [] =
     \<lparr>success = False, error = Some ''Placement incomplete. Failed items: B'',
      placements = [\<lparr>r_itemId = ''A'', r_containerId = ''C1'',
                     r_position = mk_pos (mk_coords 0 0 0) (mk_coords 1 1 1)\<rparr>],
      rearrangements = [], failedItemIds = [''B'']\<rparr>"
  by (simp add: engine_eval spot_eval higher_priority_first_def tie_item_A_def tie_item_B_def
      unit_container_def)

lemma malformed_eval:
  "std_sort_contract std_sort \<Longrightarrow>
   suggest_placements_cpp std_sort [malformed_item] [scenario1_container_C1] [(''CX'', [dangling_placement])] =
     \<lparr>success = True, error = None,
      placements = [\<lparr>r_itemId = ''A'', r_containerId = ''C1'',
                     r_position = mk_pos (mk_coords 0 8 0) (mk_coords (- 1) 10 2)\<rparr>,
                    \<lparr>r_itemId = ''X'', r_containerId = ''CX'',
                     r_position = mk_pos (mk_coords 0 0 0) (mk_coords 1 1 1)\<rparr>],
      rearrangements = [], failedItemIds = []\<rparr>"
  by (simp add: engine_eval spot_eval std_sort_contract_single malformed_item_def scenario1_container_C1_def dangling_placement_def)

lemma oversized_eval:
  "std_sort_contract std_sort \<Longrightarrow>
   suggest_placements_cpp std_sort [oversized_malformed_item] [unit_container] [] =
     \<lparr>success = False, error = Some ''Placement incomplete. Failed items: A'',
      placements = [], rearrangements = [], failedItemIds = [''A'']\<rparr>"
  by (simp add: engine_eval spot_eval std_sort_contract_single oversized_malformed_item_def unit_container_def)





lemma scenario4_phase1:
  "std_sort_contract std_sort \<Longrightarrow>
   phase3_worklist std_sort [scenario4_item_H] [scenario4_container_C1, scenario4_container_C2]
       [(''C1'', [scenario4_placement_L])] = [] \<and>
   final_placements_map
     (phase1 (load_containers_map [scenario4_container_C1, scenario4_container_C2] [])
        (map c_containerId [scenario4_container_C1, scenario4_container_C2])
        (std_sort higher_priority_first [scenario4_item_H])
        (initial_state [(''C1'', [scenario4_placement_L])])) =
     [(''H'', \<lparr>r_itemId = ''H'', r_containerId = ''C1'',
              r_position = mk_pos (mk_coords 0 0 1) (mk_coords 4 4 3)\<rparr>),
      (''L'', \<lparr>r_itemId = ''L'', r_containerId = ''C1'',
              r_position = mk_pos (mk_coords 0 0 0) (mk_coords 4 4 1)\<rparr>)]"
  by (simp add: phase3_worklist_def engine_eval std_sort_contract_single
       scenario4_spot[unfolded scenario4_item_H_def scenario4_container_C1_def scenario4_placement_L_def]
       scenario4_item_H_def scenario4_container_C1_def scenario4_container_C2_def scenario4_placement_L_def)

lemma mixed_eval_stable:
  "suggest_placements_cpp stable_sort_by_priority [tie_item_A, scenario4_item_H, tie_item_B]
     [unit_container] [] =
     \<lparr>success = False, error = Some ''Placement incomplete. Failed items: H, B'',
      placements = [\<lparr>r_itemId = ''A'', r_containerId = ''C1'',
                     r_position = mk_pos (mk_coords 0 0 0) (mk_coords 1 1 1)\<rparr>],
      rearrangements = [], failedItemIds = [''H'', ''B'']\<rparr>"
  by (simp add: engine_eval spot_eval higher_priority_first_def tie_item_A_def tie_item_B_def
      scenario4_item_H_def unit_container_def)

subsection \<open>Seventeen items of equal priority\<close>

text \<open>
  The library's sort on the seventeen items: the median of three swaps the first element
  with the middle one, the partition swaps the rest pairwise from both ends, and the final
  insertion sort moves nothing.
\<close>

lemma equal_priority_item_fields [simp]:
  "i_itemId (equal_priority_item a) = a"
  "i_priority (equal_priority_item a) = 50"
  "i_preferredZone (equal_priority_item a) = None"
  by (simp_all add: equal_priority_item_def)

lemma equal_priority_item_eq [simp]: "equal_priority_item a = equal_priority_item b \<longleftrightarrow> a = b"
  by (auto simp: equal_priority_item_def)

lemma equal_priority_items_tie [simp]:
  "higher_priority_first (equal_priority_item a) (equal_priority_item b) = False"
  by (simp add: higher_priority_first_def)

lemmas sort_eval = libstdcxx_sort_def final_insertion_sort_def introsort_loop.simps lg.simps
  unguarded_partition_pivot_def move_median_to_first_def iter_swap_def unguarded_partition.simps
  partition_advance.simps partition_retreat.simps insertion_sort_def insertion_sort_loop.simps
  unguarded_linear_insert_def unguarded_linear_insert_loop.simps unguarded_insertion_sort.simps
  Let_def

lemma libstdcxx_sort_seventeen_items:
  "libstdcxx_sort higher_priority_first seventeen_items =
     map equal_priority_item
       [''I08'', ''I16'', ''I15'', ''I14'', ''I13'', ''I12'', ''I11'', ''I10'', ''I09'',
        ''I00'', ''I07'', ''I06'', ''I05'', ''I04'', ''I03'', ''I02'', ''I01'']"
  by (simp add: sort_eval seventeen_items_def)

text \<open>
  The engine on unit cubes and a unit container: the first item of the sorted list takes
  the container, every other one fails in Phase 3.
\<close>

lemma unit_container_id [simp]: "c_containerId unit_container = ''C1''"
  by (simp add: unit_container_def)

lemma unit_spot_empty:
  "find_spot_in_container (equal_priority_item a) unit_container [] False
     = Some (mk_pos (mk_coords 0 0 0) (mk_coords 1 1 1), (1, 1, 1))"
  by (simp add: spot_eval equal_priority_item_def unit_container_def)

lemma unit_spot_full:
  "find_spot_in_container (equal_priority_item a) unit_container
     [\<lparr>p_itemId = b, p_containerId = ''C1'',
       p_position = mk_pos (mk_coords 0 0 0) (mk_coords 1 1 1), p_priority = 50\<rparr>] False = None"
  by (simp add: spot_eval equal_priority_item_def unit_container_def)

lemma phase1_no_zone:
  "processed_item_ids st = {} \<Longrightarrow>
   phase1 cm cids (map equal_priority_item ids) st =
     st\<lparr>items_requiring_placement_pass_2 :=
          items_requiring_placement_pass_2 st @ map equal_priority_item ids\<rparr>"
  by (induction ids arbitrary: st) (simp_all add: phase1_item_def)

lemma phase3_unit_first:
  "phase3_item [(''C1'', unit_container)] [''C1'']
     \<lparr>simulation_placements = [], processed_item_ids = {}, final_placements_map = [],
      items_requiring_placement_pass_2 = [], st_output = initial_output\<rparr>
     (equal_priority_item a) =
   \<lparr>simulation_placements =
      [(''C1'', [\<lparr>p_itemId = a, p_containerId = ''C1'',
                  p_position = mk_pos (mk_coords 0 0 0) (mk_coords 1 1 1), p_priority = 50\<rparr>])],
    processed_item_ids = {a},
    final_placements_map =
      [(a, \<lparr>r_itemId = a, r_containerId = ''C1'',
             r_position = mk_pos (mk_coords 0 0 0) (mk_coords 1 1 1)\<rparr>)],
    items_requiring_placement_pass_2 = [], st_output = initial_output\<rparr>"
  by (simp add: phase3_item_def commit_placement_def map_index_def unit_spot_empty)

lemma phase3_unit_full:
  assumes "simulation_placements st =
             [(''C1'', [\<lparr>p_itemId = b, p_containerId = ''C1'',
                         p_position = mk_pos (mk_coords 0 0 0) (mk_coords 1 1 1), p_priority = 50\<rparr>])]"
    and "distinct ids" and "set ids \<inter> processed_item_ids st = {}"
  shows "failedItemIds (st_output (phase3 [(''C1'', unit_container)] [''C1'']
                                     (map equal_priority_item ids) st))
           = failedItemIds (st_output st) @ ids \<and>
         final_placements_map (phase3 [(''C1'', unit_container)] [''C1'']
                                 (map equal_priority_item ids) st)
           = final_placements_map st"
  using assms
proof (induction ids arbitrary: st)
  case Nil
  then show ?case by simp
next
  case (Cons a ids)
  from Cons.prems have step: "phase3_item [(''C1'', unit_container)] [''C1''] st (equal_priority_item a)
      = fail_item st (equal_priority_item a)"
    by (simp add: phase3_item_def map_index_def unit_spot_full)
  from Cons.prems have "failedItemIds (st_output (phase3 [(''C1'', unit_container)] [''C1'']
                                     (map equal_priority_item ids) (fail_item st (equal_priority_item a))))
           = failedItemIds (st_output (fail_item st (equal_priority_item a))) @ ids \<and>
         final_placements_map (phase3 [(''C1'', unit_container)] [''C1'']
                                 (map equal_priority_item ids) (fail_item st (equal_priority_item a)))
           = final_placements_map (fail_item st (equal_priority_item a))"
    by (intro Cons.IH) auto
  with step show ?case by simp
qed

lemma unit_container_run:
  assumes "std_sort higher_priority_first items = map equal_priority_item (a # ids)"
    and "distinct (a # ids)"
  shows "placements (suggest_placements_cpp std_sort items [unit_container] []) =
           [\<lparr>r_itemId = a, r_containerId = ''C1'',
             r_position = mk_pos (mk_coords 0 0 0) (mk_coords 1 1 1)\<rparr>] \<and>
         failedItemIds (suggest_placements_cpp std_sort items [unit_container] []) = ids"
proof -
  let ?cm = "[(''C1'', unit_container)]" and ?cids = "[''C1'']"
  let ?st1 = "phase1 ?cm ?cids (map equal_priority_item (a # ids)) (initial_state [])"
  let ?sta = "\<lparr>simulation_placements =
      [(''C1'', [\<lparr>p_itemId = a, p_containerId = ''C1'',
                  p_position = mk_pos (mk_coords 0 0 0) (mk_coords 1 1 1), p_priority = 50\<rparr>])],
    processed_item_ids = {a},
    final_placements_map =
      [(a, \<lparr>r_itemId = a, r_containerId = ''C1'',
             r_position = mk_pos (mk_coords 0 0 0) (mk_coords 1 1 1)\<rparr>)],
    items_requiring_placement_pass_2 = [], st_output = initial_output\<rparr>"
  have st1: "?st1 = (initial_state [])\<lparr>items_requiring_placement_pass_2 :=
                     map equal_priority_item (a # ids)\<rparr>"
    by (subst phase1_no_zone) (simp_all add: initial_state_def)
  have wl: "fst (phase2 ?st1) = map equal_priority_item (a # ids)"
    unfolding st1 by simp
  have st2: "snd (phase2 ?st1) =
      \<lparr>simulation_placements = [], processed_item_ids = {}, final_placements_map = [],
       items_requiring_placement_pass_2 = [], st_output = initial_output\<rparr>"
    unfolding st1 by (simp add: phase2_def initial_state_def)
  have st3: "phase3 ?cm ?cids (fst (phase2 ?st1)) (snd (phase2 ?st1)) =
      phase3 ?cm ?cids (map equal_priority_item ids) ?sta"
    unfolding wl st2 by (simp add: phase3_unit_first)
  from assms(2) have
    "failedItemIds (st_output (phase3 ?cm ?cids (map equal_priority_item ids) ?sta))
       = failedItemIds (st_output ?sta) @ ids \<and>
     final_placements_map (phase3 ?cm ?cids (map equal_priority_item ids) ?sta)
       = final_placements_map ?sta"
    by (intro phase3_unit_full) auto
  then have f: "failedItemIds (st_output (phase3 ?cm ?cids (map equal_priority_item ids) ?sta)) = ids"
    and m: "final_placements_map (phase3 ?cm ?cids (map equal_priority_item ids) ?sta) =
      [(a, \<lparr>r_itemId = a, r_containerId = ''C1'',
             r_position = mk_pos (mk_coords 0 0 0) (mk_coords 1 1 1)\<rparr>)]"
    by (simp_all add: initial_output_def)
  have out: "suggest_placements_cpp std_sort items [unit_container] [] =
      phase4 (phase3 ?cm ?cids (map equal_priority_item ids) ?sta)"
    by (simp add: suggest_unfold assms(1) st3[simplified])
  from assms(2) have "\<not> is_failed a ids" by (simp add: is_failed_iff)
  with f m show ?thesis unfolding out by (simp add: phase4_def Let_def initial_output_def)
qed

lemma stable_sort_seventeen_items:
  "stable_sort_by_priority higher_priority_first seventeen_items = seventeen_items"
  by (simp add: seventeen_items_def)

lemma seventeen_not_input_order:
  "\<not> ties_in_input_order seventeen_items (libstdcxx_sort higher_priority_first seventeen_items)"
  unfolding libstdcxx_sort_seventeen_items
  by (simp add: ties_in_input_order_def seventeen_items_def)

lemma seventeen_run_libstdcxx:
  "placements (suggest_placements_cpp libstdcxx_sort seventeen_items [unit_container] []) =
     [\<lparr>r_itemId = ''I08'', r_containerId = ''C1'',
       r_position = mk_pos (mk_coords 0 0 0) (mk_coords 1 1 1)\<rparr>] \<and>
   failedItemIds (suggest_placements_cpp libstdcxx_sort seventeen_items [unit_container] []) =
     [''I16'', ''I15'', ''I14'', ''I13'', ''I12'', ''I11'', ''I10'', ''I09'',
      ''I00'', ''I07'', ''I06'', ''I05'', ''I04'', ''I03'', ''I02'', ''I01'']"
  by (rule unit_container_run) (simp_all add: libstdcxx_sort_seventeen_items)

lemma seventeen_run_stable:
  "placements (suggest_placements_cpp stable_sort_by_priority seventeen_items [unit_container] []) =
     [\<lparr>r_itemId = ''I00'', r_containerId = ''C1'',
       r_position = mk_pos (mk_coords 0 0 0) (mk_coords 1 1 1)\<rparr>] \<and>
   failedItemIds (suggest_placements_cpp stable_sort_by_priority seventeen_items [unit_container] []) =
     [''I01'', ''I02'', ''I03'', ''I04'', ''I05'', ''I06'', ''I07'', ''I08'',
      ''I09'', ''I10'', ''I11'', ''I12'', ''I13'', ''I14'', ''I15'', ''I16'']"
  by (rule unit_container_run) (simp_all add: stable_sort_seventeen_items seventeen_items_def)

lemma mixed_eval_libstdcxx:
  "suggest_placements_cpp libstdcxx_sort [tie_item_A, scenario4_item_H, tie_item_B]
     [unit_container] [] =
     \<lparr>success = False, error = Some ''Placement incomplete. Failed items: H, B'',
      placements = [\<lparr>r_itemId = ''A'', r_containerId = ''C1'',
                     r_position = mk_pos (mk_coords 0 0 0) (mk_coords 1 1 1)\<rparr>],
      rearrangements = [], failedItemIds = [''H'', ''B'']\<rparr>"
proof -
  have "libstdcxx_sort higher_priority_first [tie_item_A, scenario4_item_H, tie_item_B]
      = stable_sort_by_priority higher_priority_first [tie_item_A, scenario4_item_H, tie_item_B]"
    by (simp add: sort_eval move_backward_def higher_priority_first_def tie_item_A_def
        tie_item_B_def scenario4_item_H_def)
  then have "suggest_placements_cpp libstdcxx_sort [tie_item_A, scenario4_item_H, tie_item_B]
       [unit_container] [] =
     suggest_placements_cpp stable_sort_by_priority [tie_item_A, scenario4_item_H, tie_item_B]
       [unit_container] []"
    by (simp add: suggest_placements_cpp_def)
  with mixed_eval_stable show ?thesis by simp
qed

lemma libstdcxx_sort_mixed:
  "libstdcxx_sort higher_priority_first [tie_item_A, scenario4_item_H, tie_item_B]
     = [scenario4_item_H, tie_item_A, tie_item_B]"
  by (simp add: sort_eval move_backward_def higher_priority_first_def tie_item_A_def
        tie_item_B_def scenario4_item_H_def)

section \<open>The claims about the engine\<close>

subsection \<open>No overlap, in bounds, stable\<close>




subsection \<open>Rearrangements\<close>

text \<open>
  Claim C10. Whatever the items, the containers and the live placements, the output of
  \<open>suggest_placements_cpp\<close> has an empty list of rearrangements: Phase 2 hands its
  backlog to Phase 3 and no code path appends a step. The claim holds for every function
  put in the place of \<open>std::sort\<close>.
\<close>

theorem rearrangements_always_empty:
  "rearrangements (suggest_placements_cpp std_sort items containers m) = []"
  using final_state_out_inv[of "load_containers_map containers []" "map c_containerId containers"
      "std_sort higher_priority_first items" m]
  by (simp add: suggest_unfold phase4_fields out_inv_def)

subsection \<open>Success flag and error message\<close>

text \<open>
  Claim C8. For every input the output has \<open>success = failedItemIds.empty()\<close>; when
  \<open>success\<close> is false the error is the text "Placement incomplete. Failed items: "
  followed by the failed ids joined with ", ", and when \<open>success\<close> is true the
  error is absent.
\<close>

theorem success_and_error_consistent:
  "success (suggest_placements_cpp std_sort items containers m)
     = (failedItemIds (suggest_placements_cpp std_sort items containers m) = []) \<and>
   error (suggest_placements_cpp std_sort items containers m)
     = (if success (suggest_placements_cpp std_sort items containers m) then None
        else Some (''Placement incomplete. Failed items: '' @
                   joined '', '' (failedItemIds (suggest_placements_cpp std_sort items containers m))))"
  using final_state_out_inv[of "load_containers_map containers []" "map c_containerId containers"
      "std_sort higher_priority_first items" m]
  by (simp add: suggest_unfold phase4_fields out_inv_def error_msg_loop_joined)

theorem success_and_error_consistent_witness:
  "\<not> success (suggest_placements_cpp stable_sort_by_priority [tie_item_A, tie_item_B]
                 [unit_container] []) \<and>
   error (suggest_placements_cpp stable_sort_by_priority [tie_item_A, tie_item_B]
            [unit_container] []) = Some ''Placement incomplete. Failed items: B''"
  using success_and_error_consistent[of stable_sort_by_priority "[tie_item_A, tie_item_B]"
      "[unit_container]" "[]"]
  by (simp add: tie_eval_stable)

subsection \<open>Every incoming item is placed or declared failed\<close>

text \<open>
  Claim C7. For every input, every incoming item id appears among the item ids of
  \<open>placements\<close> or in \<open>failedItemIds\<close>, and never in both. (\<open>std::sort\<close> enters
  only through its contract: the sorted list has the items of the input.)
\<close>

theorem every_item_placed_xor_failed:
  assumes "std_sort_contract std_sort" and "item \<in> set items"
  shows "(i_itemId item
            \<in> r_itemId ` set (placements (suggest_placements_cpp std_sort items containers m)))
           \<noteq> (i_itemId item
                \<in> set (failedItemIds (suggest_placements_cpp std_sort items containers m)))"
proof -
  from assms have "item \<in> set (std_sort higher_priority_first items)" by (simp add: std_sort_contract_set)
  then show ?thesis
    unfolding suggest_unfold
    by (intro placed_xor_failed final_state_ids_inv final_state_covers)
qed

theorem every_item_placed_xor_failed_witness:
  "std_sort_contract stable_sort_by_priority \<and>
   tie_item_B \<in> set [tie_item_A, tie_item_B] \<and>
   ((i_itemId tie_item_B
       \<in> r_itemId ` set (placements (suggest_placements_cpp stable_sort_by_priority
                                      [tie_item_A, tie_item_B] [unit_container] [])))
      \<noteq> (i_itemId tie_item_B
           \<in> set (failedItemIds (suggest_placements_cpp stable_sort_by_priority
                                   [tie_item_A, tie_item_B] [unit_container] []))))"
proof -
  have m: "tie_item_B \<in> set [tie_item_A, tie_item_B]" by simp
  from every_item_placed_xor_failed[OF std_sort_contract_stable m, of "[unit_container]" "[]"]
    std_sort_contract_stable m
  show ?thesis by blast
qed

subsection \<open>The order in which items are processed\<close>

text \<open>
  Claim C6, as the code has it. The items are sorted with \<open>std::sort\<close> and the
  comparator \<open>a.priority > b.priority\<close> of lines 338-340, a strict weak ordering. For
  every sort that does what the C++ standard guarantees of \<open>std::sort\<close>, the list
  Phase 1 walks through is a permutation of the input in descending priority; the list
  Phase 3 walks through is a subsequence of it, in the same order; and
  \<open>failedItemIds\<close> names, in that order again, the items of the Phase 3 list that
  found no spot. So both phases process in descending priority. The sort of the GNU C++
  library is such a sort. The order among items of equal priority is the one
  \<open>std::sort\<close> produces, which the standard leaves open; the input order is not
  guaranteed.
\<close>

theorem processing_order_priority_descending:
  assumes "std_sort_guarantee std_sort"
  shows "mset (std_sort higher_priority_first items) = mset items \<and>
         sorted_wrt (\<lambda>a b. i_priority a \<ge> i_priority b) (std_sort higher_priority_first items) \<and>
         subseq (phase3_worklist std_sort items containers m) (std_sort higher_priority_first items) \<and>
         sorted_wrt (\<lambda>a b. i_priority a \<ge> i_priority b)
           (phase3_worklist std_sort items containers m) \<and>
         suggest_placements_cpp std_sort items containers m =
           phase4 (phase3 (load_containers_map containers []) (map c_containerId containers)
             (phase3_worklist std_sort items containers m)
             (snd (phase2 (phase1 (load_containers_map containers []) (map c_containerId containers)
                (std_sort higher_priority_first items) (initial_state m))))) \<and>
         (\<exists>failed. subseq failed (phase3_worklist std_sort items containers m) \<and>
            sorted_wrt (\<lambda>a b. i_priority a \<ge> i_priority b) failed \<and>
            failedItemIds (suggest_placements_cpp std_sort items containers m)
              = map i_itemId failed)"
proof -
  from assms strict_weak_order_higher_priority_first
  have 1: "mset (std_sort higher_priority_first items) = mset items"
    and "sorted_wrt (\<lambda>a b. \<not> higher_priority_first b a) (std_sort higher_priority_first items)"
    by (simp_all add: std_sort_guarantee_def)
  then have 2: "sorted_wrt (\<lambda>a b. i_priority a \<ge> i_priority b) (std_sort higher_priority_first items)"
    by (simp add: higher_priority_first_def not_less)
  have 3: "subseq (phase3_worklist std_sort items containers m) (std_sort higher_priority_first items)"
    by (rule phase3_worklist_subseq)
  from 3 2 have 4: "sorted_wrt (\<lambda>a b. i_priority a \<ge> i_priority b)
      (phase3_worklist std_sort items containers m)"
    by (rule sorted_wrt_subseq)
  have 5: "suggest_placements_cpp std_sort items containers m =
           phase4 (phase3 (load_containers_map containers []) (map c_containerId containers)
             (phase3_worklist std_sort items containers m)
             (snd (phase2 (phase1 (load_containers_map containers []) (map c_containerId containers)
                (std_sort higher_priority_first items) (initial_state m)))))"
    unfolding phase3_worklist_def by (rule suggest_unfold)
  from failed_ids_in_worklist_order[of std_sort items containers m] obtain failed where
    f: "subseq failed (phase3_worklist std_sort items containers m)"
    and g: "failedItemIds (suggest_placements_cpp std_sort items containers m) = map i_itemId failed"
    by blast
  from f 4 have "sorted_wrt (\<lambda>a b. i_priority a \<ge> i_priority b) failed"
    by (rule sorted_wrt_subseq)
  with f g have 6: "\<exists>failed. subseq failed (phase3_worklist std_sort items containers m) \<and>
            sorted_wrt (\<lambda>a b. i_priority a \<ge> i_priority b) failed \<and>
            failedItemIds (suggest_placements_cpp std_sort items containers m)
              = map i_itemId failed"
    by blast
  from 1 2 3 4 5 6 show ?thesis by blast
qed

theorem processing_order_priority_descending_witness:
  "std_sort_guarantee libstdcxx_sort \<and>
   libstdcxx_sort higher_priority_first [tie_item_A, scenario4_item_H, tie_item_B]
     = [scenario4_item_H, tie_item_A, tie_item_B] \<and>
   sorted_wrt (\<lambda>a b. i_priority a \<ge> i_priority b)
     (libstdcxx_sort higher_priority_first [tie_item_A, scenario4_item_H, tie_item_B]) \<and>
   sorted_wrt (\<lambda>a b. i_priority a \<ge> i_priority b)
     (phase3_worklist libstdcxx_sort [tie_item_A, scenario4_item_H, tie_item_B]
        [unit_container] []) \<and>
   (\<exists>failed. subseq failed (phase3_worklist libstdcxx_sort
                 [tie_item_A, scenario4_item_H, tie_item_B] [unit_container] []) \<and>
      sorted_wrt (\<lambda>a b. i_priority a \<ge> i_priority b) failed \<and>
      failedItemIds (suggest_placements_cpp libstdcxx_sort
                       [tie_item_A, scenario4_item_H, tie_item_B] [unit_container] [])
        = map i_itemId failed) \<and>
   failedItemIds (suggest_placements_cpp libstdcxx_sort
                    [tie_item_A, scenario4_item_H, tie_item_B] [unit_container] [])
     = [''H'', ''B'']"
proof -
  have e: "failedItemIds (suggest_placements_cpp libstdcxx_sort
                    [tie_item_A, scenario4_item_H, tie_item_B] [unit_container] [])
     = [''H'', ''B'']"
    by (simp add: mixed_eval_libstdcxx)
  from processing_order_priority_descending[OF std_sort_guarantee_libstdcxx,
      of "[tie_item_A, scenario4_item_H, tie_item_B]" "[unit_container]" "[]"]
    std_sort_guarantee_libstdcxx libstdcxx_sort_mixed e
  show ?thesis by blast
qed

text \<open>
  Claim C6 as stated fails. The sort of the GNU C++ library leaves two items of equal
  priority in input order, but not seventeen: it processes I08 first, which takes the
  only free spot, and I00 is among the failed items, whereas processing in input order
  places I00 and fails I08.
\<close>

theorem equal_priority_order_not_input_order:
  "libstdcxx_sort higher_priority_first [tie_item_A, tie_item_B] = [tie_item_A, tie_item_B] \<and>
   libstdcxx_sort higher_priority_first seventeen_items =
     map equal_priority_item
       [''I08'', ''I16'', ''I15'', ''I14'', ''I13'', ''I12'', ''I11'', ''I10'', ''I09'',
        ''I00'', ''I07'', ''I06'', ''I05'', ''I04'', ''I03'', ''I02'', ''I01''] \<and>
   \<not> ties_in_input_order seventeen_items (libstdcxx_sort higher_priority_first seventeen_items) \<and>
   placements (suggest_placements_cpp libstdcxx_sort seventeen_items [unit_container] []) =
     [\<lparr>r_itemId = ''I08'', r_containerId = ''C1'',
       r_position = mk_pos (mk_coords 0 0 0) (mk_coords 1 1 1)\<rparr>] \<and>
   failedItemIds (suggest_placements_cpp libstdcxx_sort seventeen_items [unit_container] []) =
     [''I16'', ''I15'', ''I14'', ''I13'', ''I12'', ''I11'', ''I10'', ''I09'',
      ''I00'', ''I07'', ''I06'', ''I05'', ''I04'', ''I03'', ''I02'', ''I01''] \<and>
   placements (suggest_placements_cpp stable_sort_by_priority seventeen_items [unit_container] []) =
     [\<lparr>r_itemId = ''I00'', r_containerId = ''C1'',
       r_position = mk_pos (mk_coords 0 0 0) (mk_coords 1 1 1)\<rparr>] \<and>
   failedItemIds (suggest_placements_cpp stable_sort_by_priority seventeen_items [unit_container] []) =
     [''I01'', ''I02'', ''I03'', ''I04'', ''I05'', ''I06'', ''I07'', ''I08'',
      ''I09'', ''I10'', ''I11'', ''I12'', ''I13'', ''I14'', ''I15'', ''I16'']"
proof -
  have two: "libstdcxx_sort higher_priority_first [tie_item_A, tie_item_B] = [tie_item_A, tie_item_B]"
    by (simp add: sort_eval higher_priority_first_def tie_item_A_def tie_item_B_def)
  from two libstdcxx_sort_seventeen_items seventeen_not_input_order seventeen_run_libstdcxx
    seventeen_run_stable
  show ?thesis by blast
qed

subsection \<open>An empty batch\<close>

text \<open>
  Claim C9. With an empty list of incoming items and live placements whose item ids are
  pairwise distinct, the output holds exactly the live placements, each with its item id,
  the container it is filed under and its position, no rearrangement, no failed id, no
  error, and \<open>success = true\<close>.
\<close>

theorem empty_batch_returns_live_placements:
  assumes "std_sort_contract std_sort" and "distinct (live_item_ids m)"
  shows "mset (placements (suggest_placements_cpp std_sort [] containers m)) = mset (live_results m) \<and>
         rearrangements (suggest_placements_cpp std_sort [] containers m) = [] \<and>
         success (suggest_placements_cpp std_sort [] containers m) \<and>
         error (suggest_placements_cpp std_sort [] containers m) = None \<and>
         failedItemIds (suggest_placements_cpp std_sort [] containers m) = []"
proof -
  from seed_final_mset[OF assms(2), of "[]"]
  have "mset (map snd (seed_final m [])) = mset (live_results m)" by simp
  then show ?thesis
    by (simp add: suggest_unfold std_sort_contract_Nil[OF assms(1)] phase4_fields
        initial_state_def initial_output_def collect_placements_filter)
qed

theorem empty_batch_returns_live_placements_witness:
  "std_sort_contract stable_sort_by_priority \<and>
   distinct (live_item_ids [(''C1'', [scenario4_placement_L])]) \<and>
   mset (placements (suggest_placements_cpp stable_sort_by_priority []
           [scenario4_container_C1, scenario4_container_C2] [(''C1'', [scenario4_placement_L])]))
     = {#\<lparr>r_itemId = ''L'', r_containerId = ''C1'',
          r_position = mk_pos (mk_coords 0 0 0) (mk_coords 4 4 1)\<rparr>#} \<and>
   success (suggest_placements_cpp stable_sort_by_priority []
           [scenario4_container_C1, scenario4_container_C2] [(''C1'', [scenario4_placement_L])])"
proof -
  have d: "distinct (live_item_ids [(''C1'', [scenario4_placement_L])])" by simp
  from empty_batch_returns_live_placements[OF std_sort_contract_stable d,
      of "[scenario4_container_C1, scenario4_container_C2]"]
    std_sort_contract_stable d
  show ?thesis by (simp add: scenario4_placement_L_def)
qed

subsection \<open>Scenario 1: floor fit in an empty container\<close>

text \<open>
  Claim C3, as the code has it. For the empty container C1 of 10 x 10 x 10 in zone Z1 and
  the item A of 2 x 3 x 1 with priority 50 and preferred zone Z1 the engine returns
  \<open>success = true\<close>, no error, no rearrangement, no failed id and exactly one
  placement, A in C1 from (0, 7, 0) to (2, 10, 1): the first orientation, the floor, the
  first depth candidate 10 - 0.4 = 9.6 of the descending iteration clamped to 10 - 3 = 7,
  and the first width candidate 0.
\<close>

theorem scenario1_floor_fit:
  "std_sort_contract std_sort \<Longrightarrow>
   suggest_placements_cpp std_sort [scenario1_item_A] [scenario1_container_C1] [] =
     \<lparr>success = True, error = None,
      placements = [\<lparr>r_itemId = ''A'', r_containerId = ''C1'',
                     r_position = mk_pos (mk_coords 0 7 0) (mk_coords 2 10 1)\<rparr>],
      rearrangements = [], failedItemIds = []\<rparr>"
  by (rule scenario1_eval)

theorem scenario1_floor_fit_witness:
  "std_sort_contract stable_sort_by_priority \<and>
   suggest_placements_cpp stable_sort_by_priority [scenario1_item_A] [scenario1_container_C1] [] =
     \<lparr>success = True, error = None,
      placements = [\<lparr>r_itemId = ''A'', r_containerId = ''C1'',
                     r_position = mk_pos (mk_coords 0 7 0) (mk_coords 2 10 1)\<rparr>],
      rearrangements = [], failedItemIds = []\<rparr>"
  using scenario1_floor_fit[OF std_sort_contract_stable] std_sort_contract_stable by blast

text \<open>
  Claim C3 as stated fails: the placement list it states first, A from (0, 0, 0) to
  (2, 3, 1), is not the one returned.
\<close>

theorem scenario1_not_at_origin:
  "placements (suggest_placements_cpp stable_sort_by_priority [scenario1_item_A]
                 [scenario1_container_C1] [])
     \<noteq> [\<lparr>r_itemId = ''A'', r_containerId = ''C1'',
           r_position = mk_pos (mk_coords 0 0 0) (mk_coords 2 3 1)\<rparr>]"
  by (simp add: scenario1_eval[OF std_sort_contract_stable] mk_pos_def mk_coords_def)

subsection \<open>Scenario 4: a high-priority item and a full floor\<close>

text \<open>
  Claim C4, as the code has it. For container C1 (4 x 4 x 4, zone Z1) holding L from
  (0, 0, 0) to (4, 4, 1), the empty container C2 (4 x 4 x 4, zone Z2) and the incoming item
  H of 4 x 4 x 2 with priority 90 and preferred zone Z1, Phase 1 places H in C1 on top of L,
  from (0, 0, 1) to (4, 4, 3): the state Phase 1 leaves has H at that position in
  \<open>final_placements_map\<close>, and the work list of Phase 3 is empty. L stays where it is, the
  list of rearrangements is empty and \<open>success = true\<close>.
\<close>

theorem scenario4_stacks_without_rearrangement:
  "std_sort_contract std_sort \<Longrightarrow>
   suggest_placements_cpp std_sort [scenario4_item_H]
       [scenario4_container_C1, scenario4_container_C2] [(''C1'', [scenario4_placement_L])] =
     \<lparr>success = True, error = None,
      placements = [\<lparr>r_itemId = ''H'', r_containerId = ''C1'',
                     r_position = mk_pos (mk_coords 0 0 1) (mk_coords 4 4 3)\<rparr>,
                    \<lparr>r_itemId = ''L'', r_containerId = ''C1'',
                     r_position = mk_pos (mk_coords 0 0 0) (mk_coords 4 4 1)\<rparr>],
      rearrangements = [], failedItemIds = []\<rparr> \<and>
   final_placements_map
     (phase1 (load_containers_map [scenario4_container_C1, scenario4_container_C2] [])
        (map c_containerId [scenario4_container_C1, scenario4_container_C2])
        (std_sort higher_priority_first [scenario4_item_H])
        (initial_state [(''C1'', [scenario4_placement_L])])) =
     [(''H'', \<lparr>r_itemId = ''H'', r_containerId = ''C1'',
              r_position = mk_pos (mk_coords 0 0 1) (mk_coords 4 4 3)\<rparr>),
      (''L'', \<lparr>r_itemId = ''L'', r_containerId = ''C1'',
              r_position = mk_pos (mk_coords 0 0 0) (mk_coords 4 4 1)\<rparr>)] \<and>
   phase3_worklist std_sort [scenario4_item_H] [scenario4_container_C1, scenario4_container_C2]
       [(''C1'', [scenario4_placement_L])] = []"
  using scenario4_eval[of std_sort] scenario4_phase1[of std_sort] by blast

theorem scenario4_stacks_without_rearrangement_witness:
  "std_sort_contract stable_sort_by_priority \<and>
   suggest_placements_cpp stable_sort_by_priority [scenario4_item_H]
       [scenario4_container_C1, scenario4_container_C2] [(''C1'', [scenario4_placement_L])] =
     \<lparr>success = True, error = None,
      placements = [\<lparr>r_itemId = ''H'', r_containerId = ''C1'',
                     r_position = mk_pos (mk_coords 0 0 1) (mk_coords 4 4 3)\<rparr>,
                    \<lparr>r_itemId = ''L'', r_containerId = ''C1'',
                     r_position = mk_pos (mk_coords 0 0 0) (mk_coords 4 4 1)\<rparr>],
      rearrangements = [], failedItemIds = []\<rparr> \<and>
   final_placements_map
     (phase1 (load_containers_map [scenario4_container_C1, scenario4_container_C2] [])
        (map c_containerId [scenario4_container_C1, scenario4_container_C2])
        (stable_sort_by_priority higher_priority_first [scenario4_item_H])
        (initial_state [(''C1'', [scenario4_placement_L])])) =
     [(''H'', \<lparr>r_itemId = ''H'', r_containerId = ''C1'',
              r_position = mk_pos (mk_coords 0 0 1) (mk_coords 4 4 3)\<rparr>),
      (''L'', \<lparr>r_itemId = ''L'', r_containerId = ''C1'',
              r_position = mk_pos (mk_coords 0 0 0) (mk_coords 4 4 1)\<rparr>)] \<and>
   phase3_worklist stable_sort_by_priority [scenario4_item_H]
       [scenario4_container_C1, scenario4_container_C2] [(''C1'', [scenario4_placement_L])] = []"
  using scenario4_stacks_without_rearrangement[OF std_sort_contract_stable]
    std_sort_contract_stable by blast

text \<open>
  Claim C4 as stated fails: the output has no rearrangement step, so not exactly one; L is
  not re-homed into C2 and H is not at (0, 0, 0) - (4, 4, 2).
\<close>

theorem scenario4_no_rearrangement_step:
  "length (rearrangements (suggest_placements_cpp stable_sort_by_priority [scenario4_item_H]
       [scenario4_container_C1, scenario4_container_C2] [(''C1'', [scenario4_placement_L])])) \<noteq> 1 \<and>
   \<lparr>r_itemId = ''H'', r_containerId = ''C1'',
     r_position = mk_pos (mk_coords 0 0 0) (mk_coords 4 4 2)\<rparr>
     \<notin> set (placements (suggest_placements_cpp stable_sort_by_priority [scenario4_item_H]
       [scenario4_container_C1, scenario4_container_C2] [(''C1'', [scenario4_placement_L])])) \<and>
   ''C2'' \<notin> r_containerId ` set (placements (suggest_placements_cpp stable_sort_by_priority
       [scenario4_item_H] [scenario4_container_C1, scenario4_container_C2]
       [(''C1'', [scenario4_placement_L])]))"
  by (simp add: scenario4_eval[OF std_sort_contract_stable] mk_pos_def mk_coords_def)

subsection \<open>Inputs that break the input invariants\<close>

text \<open>
  Claim C5, as the code has it. The engine validates nothing: an input that breaks the
  input invariants runs through the same phases as any other. Its output has no
  rearrangement, \<open>failedItemIds\<close> holds ids of incoming items only (those for which
  Phase 3 found no spot), \<open>success\<close> is false exactly when that list is not empty, and
  an error is present exactly when \<open>success\<close> is false. The placements need not be
  empty and the failed ids need not be all incoming ids.
\<close>

theorem no_input_validation:
  assumes "std_sort_contract std_sort"
  shows "rearrangements (suggest_placements_cpp std_sort items containers m) = [] \<and>
         set (failedItemIds (suggest_placements_cpp std_sort items containers m))
           \<subseteq> set (map i_itemId items) \<and>
         success (suggest_placements_cpp std_sort items containers m)
           = (failedItemIds (suggest_placements_cpp std_sort items containers m) = []) \<and>
         (error (suggest_placements_cpp std_sort items containers m) = None)
           = success (suggest_placements_cpp std_sort items containers m)"
proof -
  let ?cm = "load_containers_map containers []" and ?cids = "map c_containerId containers"
  let ?st1 = "phase1 ?cm ?cids (std_sort higher_priority_first items) (initial_state m)"
  let ?st3 = "phase3 ?cm ?cids (fst (phase2 ?st1)) (snd (phase2 ?st1))"
  have inv: "out_inv (st_output ?st3)" by (rule final_state_out_inv)
  have "set (failedItemIds (st_output ?st3))
          \<subseteq> set (failedItemIds (st_output (snd (phase2 ?st1)))) \<union> i_itemId ` set (fst (phase2 ?st1))"
    by (rule phase3_failed_subset)
  moreover have "set (fst (phase2 ?st1)) \<subseteq> set (std_sort higher_priority_first items)"
    using phase3_worklist_subseq[of std_sort items containers m]
    by (auto simp: phase3_worklist_def dest: list_emb_set)
  moreover have "failedItemIds (st_output (snd (phase2 ?st1))) = []"
    by (simp add: initial_state_def initial_output_def)
  ultimately have "set (failedItemIds (st_output ?st3)) \<subseteq> i_itemId ` set items"
    using std_sort_contract_set[OF assms, of items] by auto
  with inv show ?thesis
    by (auto simp: suggest_unfold phase4_fields out_inv_def)
qed

theorem no_input_validation_witness:
  "std_sort_contract stable_sort_by_priority \<and>
   \<not> success (suggest_placements_cpp stable_sort_by_priority [oversized_malformed_item]
                 [unit_container] []) \<and>
   error (suggest_placements_cpp stable_sort_by_priority [oversized_malformed_item]
            [unit_container] []) \<noteq> None \<and>
   set (failedItemIds (suggest_placements_cpp stable_sort_by_priority [oversized_malformed_item]
                         [unit_container] [])) \<subseteq> {''A''}"
proof -
  have ids: "set (map i_itemId [oversized_malformed_item]) = {''A''}"
    by (simp add: oversized_malformed_item_def)
  from no_input_validation[OF std_sort_contract_stable, of "[oversized_malformed_item]"
      "[unit_container]" "[]", unfolded ids] std_sort_contract_stable
  show ?thesis by (simp add: oversized_eval[OF std_sort_contract_stable])
qed

text \<open>
  Claim C5 as stated fails: an item of negative width is placed and a live placement under
  a container id that no container has is passed through, with \<open>success = true\<close>, no
  error, two placements and no failed id.
\<close>

theorem malformed_input_accepted:
  "i_width malformed_item \<le> 0 \<and>
   ''CX'' \<notin> set (map c_containerId [scenario1_container_C1]) \<and>
   suggest_placements_cpp stable_sort_by_priority [malformed_item] [scenario1_container_C1]
       [(''CX'', [dangling_placement])] =
     \<lparr>success = True, error = None,
      placements = [\<lparr>r_itemId = ''A'', r_containerId = ''C1'',
                     r_position = mk_pos (mk_coords 0 8 0) (mk_coords (- 1) 10 2)\<rparr>,
                    \<lparr>r_itemId = ''X'', r_containerId = ''CX'',
                     r_position = mk_pos (mk_coords 0 0 0) (mk_coords 1 1 1)\<rparr>],
      rearrangements = [], failedItemIds = []\<rparr>"
proof -
  have "i_width malformed_item \<le> 0" by (simp add: malformed_item_def)
  moreover have "''CX'' \<notin> set (map c_containerId [scenario1_container_C1])"
    by (simp add: scenario1_container_C1_def)
  ultimately show ?thesis
    using malformed_eval[OF std_sort_contract_stable] by blast
qed

end
